theory Spec2Isabelle
  imports Complex_Main "HOL-Library.Word"
begin

section \<open>JavaScript values used by server.js\<close>

text \<open>
  A JavaScript string is a sequence of UTF-16 code units. String literals of the source
  are ASCII and are written \<open>str ''...''\<close>.
\<close>

type_synonym jsstring = "16 word list"

definition str :: "string \<Rightarrow> jsstring" where
  "str s = map (\<lambda>c. of_nat (of_char c)) s"

text \<open>
  A JavaScript number as far as the server compares it: not-a-number, the two infinities
  and the finite values (the two zeros are both falsy and both compare equal, so they are
  one value here). The server only compares, takes \<open>Math.min\<close>/\<open>Math.max\<close> and tests
  truthiness; it never rounds.
\<close>

datatype jsnum = NaN | NegInf | Fin real | PosInf

datatype json =
    JUndefined
  | JNull
  | JBool bool
  | JNum jsnum
  | JStr jsstring
  | JArr "json list"
  | JObj "(jsstring \<times> json) list"

type_synonym jsobject = "(jsstring \<times> json) list"

datatype exn = TypeError

text \<open>\<open>Math.min(100, v)\<close> and \<open>Math.max(0, v)\<close>: not-a-number is contagious.\<close>

fun Math_min100 :: "jsnum \<Rightarrow> jsnum" where
  "Math_min100 NaN = NaN"
| "Math_min100 NegInf = NegInf"
| "Math_min100 (Fin r) = Fin (min 100 r)"
| "Math_min100 PosInf = Fin 100"

fun Math_max0 :: "jsnum \<Rightarrow> jsnum" where
  "Math_max0 NaN = NaN"
| "Math_max0 NegInf = Fin 0"
| "Math_max0 (Fin r) = Fin (max 0 r)"
| "Math_max0 PosInf = PosInf"

text \<open>Truthiness of a number, and the source's \<open>v || 0\<close> on numbers.\<close>

fun num_truthy :: "jsnum \<Rightarrow> bool" where
  "num_truthy NaN = False"
| "num_truthy (Fin r) = (r \<noteq> 0)"
| "num_truthy NegInf = True"
| "num_truthy PosInf = True"

definition or0 :: "jsnum \<Rightarrow> jsnum" where
  "or0 v = (if num_truthy v then v else Fin 0)"

fun truthy :: "json \<Rightarrow> bool" where
  "truthy JUndefined = False"
| "truthy JNull = False"
| "truthy (JBool b) = b"
| "truthy (JNum v) = num_truthy v"
| "truthy (JStr s) = (s \<noteq> [])"
| "truthy (JArr xs) = True"
| "truthy (JObj kvs) = True"

text \<open>
  Reading a property \<open>v.k\<close>. On \<open>undefined\<close> and \<open>null\<close> the read throws a TypeError. The
  server reads only the names type, data, text, x, y, nickname and username, none of
  which a primitive, an array or \<open>Object.prototype\<close> defines, so on anything but an object
  holding the key the read gives \<open>undefined\<close>.
\<close>

fun getProp :: "json \<Rightarrow> jsstring \<Rightarrow> exn + json" where
  "getProp JUndefined k = Inl TypeError"
| "getProp JNull k = Inl TypeError"
| "getProp (JObj kvs) k = Inr (case map_of kvs k of None \<Rightarrow> JUndefined | Some v \<Rightarrow> v)"
| "getProp v k = Inr JUndefined"

text \<open>
  Writing a property \<open>o.k = v\<close> on an object: an existing key keeps its place in the
  enumeration order, a new key goes last.
\<close>

fun setProp :: "jsobject \<Rightarrow> jsstring \<Rightarrow> json \<Rightarrow> jsobject" where
  "setProp [] k v = [(k, v)]"
| "setProp ((k', v') # kvs) k v =
     (if k' = k then (k, v) # kvs else (k', v') # setProp kvs k v)"

text \<open>
  Converting a value to a string inside a template literal (the log lines) throws a
  TypeError exactly when the conversion reaches an object that has an own property
  toString: no value that came out of \<open>JSON.parse\<close> is callable, and the inherited
  \<open>valueOf\<close> returns the object itself. An array converts its elements in turn.
\<close>

fun toString_throws :: "json \<Rightarrow> bool" where
  "toString_throws (JObj kvs) = (str ''toString'' \<in> fst ` set kvs)"
| "toString_throws (JArr xs) = (\<exists>x \<in> set xs. toString_throws x)"
| "toString_throws v = False"

text \<open>The decimal digits of an array index, as a property name.\<close>

fun digits :: "nat \<Rightarrow> nat \<Rightarrow> jsstring" where
  "digits 0 n = []"
| "digits (Suc f) n =
     (if n < 10 then [of_nat (48 + n)]
      else digits f (n div 10) @ [of_nat (48 + n mod 10)])"

definition index_key :: "nat \<Rightarrow> jsstring" where
  "index_key n = digits (Suc n) n"

text \<open>
  The own enumerable properties an object spread \<open>{...v}\<close> copies: those of an object,
  the indexed elements of an array, the indexed code units of a string, nothing of any
  other value.
\<close>

fun spread :: "json \<Rightarrow> jsobject" where
  "spread (JObj kvs) = kvs"
| "spread (JArr xs) = map (\<lambda>i. (index_key i, xs ! i)) [0..<length xs]"
| "spread (JStr s) = map (\<lambda>i. (index_key i, JStr [s ! i])) [0..<length s]"
| "spread v = []"

text \<open>\<open>String.prototype.trim\<close>: white space and line terminators of ECMAScript.\<close>

definition is_space :: "16 word \<Rightarrow> bool" where
  "is_space c \<longleftrightarrow>
     c \<in> {0x9, 0xA, 0xB, 0xC, 0xD, 0x20, 0xA0, 0x1680, 0x2028, 0x2029, 0x202F,
          0x205F, 0x3000, 0xFEFF} \<or> (0x2000 \<le> c \<and> c \<le> 0x200A)"

definition trim :: "jsstring \<Rightarrow> jsstring" where
  "trim s = rev (dropWhile is_space (rev (dropWhile is_space s)))"

definition substring0 :: "nat \<Rightarrow> jsstring \<Rightarrow> jsstring" where
  "substring0 n s = take n s"

text \<open>
  The built-in functions the server calls on client input are parameters of the model:
  \<open>JSON_parse\<close> gives \<open>None\<close> where \<open>JSON.parse\<close> throws, and \<open>parseFloat\<close> gives the
  number the global function returns on a value that it can convert to a string (where
  the conversion throws, see \<open>call_parseFloat\<close> below, it is not consulted).
\<close>

record builtins =
  JSON_parse :: "jsstring \<Rightarrow> json option"
  parseFloat :: "json \<Rightarrow> jsnum"

section \<open>Sessions and the registry\<close>

datatype ready_state = CONNECTING | OPEN | CLOSING | CLOSED

text \<open>
  What the server sees of a WebSocket: its \<open>readyState\<close>, and whether \<open>send\<close> on it
  throws. Both belong to the environment.
\<close>

record transport =
  readyState :: ready_state
  send_throws :: bool

type_synonym pid = jsstring

record player =
  id_of :: pid
  ws :: transport
  data :: "jsobject option"
  location :: jsstring
  lastActivity :: int
  ip :: jsstring

text \<open>
  \<open>players\<close> is the \<open>Map\<close> of the source, in insertion order. \<open>sent\<close> records, in order,
  every message a \<open>ws.send\<close> wrote, with the id of the session whose transport it was
  written to.
\<close>

record server =
  players :: "(pid \<times> player) list"
  sent :: "(pid \<times> json) list"

definition players_get :: "server \<Rightarrow> pid \<Rightarrow> player option" where
  "players_get s k = map_of (players s) k"

fun assoc_set :: "('k \<times> 'v) list \<Rightarrow> 'k \<Rightarrow> 'v \<Rightarrow> ('k \<times> 'v) list" where
  "assoc_set [] k v = [(k, v)]"
| "assoc_set ((k', v') # kvs) k v =
     (if k' = k then (k, v) # kvs else (k', v') # assoc_set kvs k v)"

definition players_set :: "pid \<Rightarrow> player \<Rightarrow> server \<Rightarrow> server" where
  "players_set k p s = s\<lparr>players := assoc_set (players s) k p\<rparr>"

definition players_delete :: "pid \<Rightarrow> server \<Rightarrow> server" where
  "players_delete k s = s\<lparr>players := filter (\<lambda>kp. fst kp \<noteq> k) (players s)\<rparr>"

section \<open>Outbound delivery\<close>

definition mk_msg :: "string \<Rightarrow> json \<Rightarrow> json" where
  "mk_msg t d = JObj [(str ''type'', JStr (str t)), (str ''data'', d)]"

definition nickname_of :: "player \<Rightarrow> json" where
  "nickname_of p =
     (case data p of None \<Rightarrow> JUndefined
      | Some d \<Rightarrow> (case map_of d (str ''nickname'') of None \<Rightarrow> JUndefined | Some v \<Rightarrow> v))"

definition player_left_msg :: "pid \<Rightarrow> player \<Rightarrow> json" where
  "player_left_msg k p =
     mk_msg ''player_left'' (JObj [(str ''id'', JStr k), (str ''nickname'', nickname_of p)])"

fun getPlayersInLocation :: "server \<Rightarrow> jsstring \<Rightarrow> pid option \<Rightarrow> player list" where
  "getPlayersInLocation s loc excludePlayerId =
     map snd (filter (\<lambda>(playerId, p).
        Some playerId \<noteq> excludePlayerId \<and> location p = loc \<and> data p \<noteq> None) (players s))"

text \<open>
  \<open>sendToPlayer\<close>, \<open>handlePlayerDisconnect\<close> and \<open>broadcastToLocation\<close> call each other:
  a send that throws runs the disconnect cleanup, whose broadcast sends again. The first
  argument bounds the nesting of such cleanups; \<open>None\<close> is a call that does not return
  within it. \<open>forEach_send\<close> is the \<open>players.forEach\<close> of \<open>broadcastToLocation\<close>.
\<close>

function sendToPlayer :: "nat \<Rightarrow> pid \<Rightarrow> json \<Rightarrow> server \<Rightarrow> server option"
  and handlePlayerDisconnect :: "nat \<Rightarrow> pid \<Rightarrow> server \<Rightarrow> server option"
  and broadcastToLocation :: "nat \<Rightarrow> jsstring \<Rightarrow> json \<Rightarrow> pid option \<Rightarrow> server \<Rightarrow> server option"
  and forEach_send :: "nat \<Rightarrow> player list \<Rightarrow> json \<Rightarrow> server \<Rightarrow> server option"
where
  "sendToPlayer n playerId message s =
     (case players_get s playerId of
        None \<Rightarrow> Some s
      | Some p \<Rightarrow>
          if readyState (ws p) = OPEN then
            (if send_throws (ws p) then
               (case n of 0 \<Rightarrow> None | Suc m \<Rightarrow> handlePlayerDisconnect m playerId s)
             else Some (s\<lparr>sent := sent s @ [(playerId, message)]\<rparr>))
          else Some s)"
| "handlePlayerDisconnect n playerId s =
     (case players_get s playerId of
        None \<Rightarrow> Some s
      | Some p \<Rightarrow>
          (case (if data p \<noteq> None
                 then broadcastToLocation n (location p) (player_left_msg playerId p) (Some playerId) s
                 else Some s) of
             None \<Rightarrow> None
           | Some s' \<Rightarrow> Some (players_delete playerId s')))"
| "broadcastToLocation n loc message excludePlayerId s =
     forEach_send n (getPlayersInLocation s loc excludePlayerId) message s"
| "forEach_send n [] message s = Some s"
| "forEach_send n (p # ps) message s =
     (case sendToPlayer n (id_of p) message s of
        None \<Rightarrow> None
      | Some s' \<Rightarrow> forEach_send n ps message s')"
  by pat_completeness auto

termination
  by (relation "measures
        [case_sum (case_sum (\<lambda>(n, _). n) (\<lambda>(n, _). n)) (case_sum (\<lambda>(n, _). n) (\<lambda>(n, _). n)),
         case_sum (case_sum (\<lambda>_. 0) (\<lambda>_. 3)) (case_sum (\<lambda>_. 2) (\<lambda>_. Suc 0)),
         case_sum (case_sum (\<lambda>_. 0) (\<lambda>_. 0)) (case_sum (\<lambda>_. 0) (\<lambda>(_, ps, _). length ps))]")
     auto

section \<open>Message handling\<close>

text \<open>
  A handler either returns or throws a TypeError; the state it has reached by then is
  kept in both cases, as the mutations of the source are.
\<close>

datatype completion = Normal | Throw

definition players_update :: "pid \<Rightarrow> (player \<Rightarrow> player) \<Rightarrow> server \<Rightarrow> server" where
  "players_update k f s =
     s\<lparr>players := map (\<lambda>(k', p). if k' = k then (k', f p) else (k', p)) (players s)\<rparr>"

definition data_prop :: "player \<Rightarrow> string \<Rightarrow> json" where
  "data_prop p k =
     (case data p of None \<Rightarrow> JUndefined
      | Some d \<Rightarrow> (case map_of d (str k) of None \<Rightarrow> JUndefined | Some v \<Rightarrow> v))"

definition profile_json :: "player \<Rightarrow> json" where
  "profile_json p = (case data p of None \<Rightarrow> JNull | Some d \<Rightarrow> JObj d)"

text \<open>The object literal \<open>{...playerData, id: playerId, joinTime: Date.now()}\<close>.\<close>

definition join_profile :: "pid \<Rightarrow> json \<Rightarrow> int \<Rightarrow> jsobject" where
  "join_profile playerId playerData now =
     setProp (setProp (spread playerData) (str ''id'') (JStr playerId))
       (str ''joinTime'') (JNum (Fin (of_int now)))"

definition set_profile :: "jsobject \<Rightarrow> player \<Rightarrow> player" where
  "set_profile d p = p\<lparr>data := Some d\<rparr>"

definition handlePlayerJoin ::
  "nat \<Rightarrow> int \<Rightarrow> pid \<Rightarrow> json \<Rightarrow> server \<Rightarrow> (completion \<times> server) option" where
  "handlePlayerJoin n now playerId playerData s =
     (case players_get s playerId of
        None \<Rightarrow> Some (Normal, s)
      | Some p \<Rightarrow>
          let d = join_profile playerId playerData now;
              p' = set_profile d p;
              s1 = players_update playerId (set_profile d) s
          in if toString_throws (nickname_of p') then Some (Throw, s1)
             else
               let otherPlayers = getPlayersInLocation s1 (location p') (Some playerId) in
               (case sendToPlayer n playerId
                       (mk_msg ''player_list'' (JArr (map profile_json otherPlayers))) s1 of
                  None \<Rightarrow> None
                | Some s2 \<Rightarrow>
                    (case broadcastToLocation n (location p')
                            (mk_msg ''player_joined'' (JObj d)) (Some playerId) s2 of
                       None \<Rightarrow> None
                     | Some s3 \<Rightarrow> Some (Normal, s3))))"

definition handlePlayerLeave :: "nat \<Rightarrow> pid \<Rightarrow> server \<Rightarrow> (completion \<times> server) option" where
  "handlePlayerLeave n playerId s =
     (case players_get s playerId of
        None \<Rightarrow> Some (Normal, s)
      | Some p \<Rightarrow>
          if data p = None then Some (Normal, s)
          else if toString_throws (nickname_of p) then Some (Throw, s)
          else
            (case broadcastToLocation n (location p) (player_left_msg playerId p)
                    (Some playerId) s of
               None \<Rightarrow> None
             | Some s' \<Rightarrow> Some (Normal, players_delete playerId s')))"

definition chat_msg :: "pid \<Rightarrow> player \<Rightarrow> jsstring \<Rightarrow> int \<Rightarrow> json" where
  "chat_msg playerId p text now =
     mk_msg ''chat_message''
       (JObj [(str ''playerId'', JStr playerId),
              (str ''username'', data_prop p ''username''),
              (str ''nickname'', nickname_of p),
              (str ''text'', JStr text),
              (str ''timestamp'', JNum (Fin (of_int now)))])"

definition handleChatMessage ::
  "nat \<Rightarrow> int \<Rightarrow> pid \<Rightarrow> json \<Rightarrow> server \<Rightarrow> (completion \<times> server) option" where
  "handleChatMessage n now playerId messageData s =
     (case players_get s playerId of
        None \<Rightarrow> Some (Normal, s)
      | Some p \<Rightarrow>
          if data p = None then Some (Normal, s)
          else
            (case getProp messageData (str ''text'') of
               Inl e \<Rightarrow> Some (Throw, s)
             | Inr v \<Rightarrow>
                 if \<not> truthy v then Some (Normal, s)
                 else
                   (case v of
                      JStr t \<Rightarrow>
                        if length (trim t) = 0 then Some (Normal, s)
                        else
                          let text = substring0 200 (trim t) in
                          if toString_throws (nickname_of p) then Some (Throw, s)
                          else
                            (case broadcastToLocation n (location p)
                                    (chat_msg playerId p text now) (Some playerId) s of
                               None \<Rightarrow> None
                             | Some s' \<Rightarrow> Some (Normal, s'))
                    | _ \<Rightarrow> Some (Throw, s))))"

text \<open>
  The call \<open>parseFloat(v)\<close>. It converts \<open>v\<close> to a string first, which throws a TypeError
  on the values on which a template literal does; on the others it gives the number of
  the built-in.
\<close>

definition call_parseFloat :: "builtins \<Rightarrow> json \<Rightarrow> exn + jsnum" where
  "call_parseFloat B v = (if toString_throws v then Inl TypeError else Inr (parseFloat B v))"

text \<open>\<open>Math.max(0, Math.min(100, f || 0))\<close> on the number \<open>f\<close> that \<open>parseFloat\<close> gave.\<close>

definition clamp_coord :: "jsnum \<Rightarrow> jsnum" where
  "clamp_coord f = Math_max0 (Math_min100 (or0 f))"

definition player_moved_msg :: "pid \<Rightarrow> jsnum \<Rightarrow> jsnum \<Rightarrow> json" where
  "player_moved_msg playerId x y =
     mk_msg ''player_moved''
       (JObj [(str ''id'', JStr playerId), (str ''x'', JNum x), (str ''y'', JNum y)])"

definition set_position :: "jsnum \<Rightarrow> jsnum \<Rightarrow> player \<Rightarrow> player" where
  "set_position x y p =
     p\<lparr>data := map_option (\<lambda>d. setProp (setProp d (str ''x'') (JNum x)) (str ''y'') (JNum y))
                  (data p)\<rparr>"

definition handlePlayerMove ::
  "nat \<Rightarrow> builtins \<Rightarrow> pid \<Rightarrow> json \<Rightarrow> server \<Rightarrow> (completion \<times> server) option" where
  "handlePlayerMove n B playerId moveData s =
     (case players_get s playerId of
        None \<Rightarrow> Some (Normal, s)
      | Some p \<Rightarrow>
          if data p = None then Some (Normal, s)
          else
            (case getProp moveData (str ''x'') of
               Inl e \<Rightarrow> Some (Throw, s)
             | Inr vx \<Rightarrow>
                 (case call_parseFloat B vx of
                    Inl e \<Rightarrow> Some (Throw, s)
                  | Inr fx \<Rightarrow>
                      (case getProp moveData (str ''y'') of
                         Inl e \<Rightarrow> Some (Throw, s)
                       | Inr vy \<Rightarrow>
                           (case call_parseFloat B vy of
                              Inl e \<Rightarrow> Some (Throw, s)
                            | Inr fy \<Rightarrow>
                                let x = clamp_coord fx;
                                    y = clamp_coord fy;
                                    s1 = players_update playerId (set_position x y) s
                                in (case broadcastToLocation n (location p)
                                           (player_moved_msg playerId x y) (Some playerId) s1 of
                                      None \<Rightarrow> None
                                    | Some s' \<Rightarrow> Some (Normal, s')))))))"

definition error_msg :: "string \<Rightarrow> json" where
  "error_msg m = mk_msg ''error'' (JObj [(str ''message'', JStr (str m))])"

text \<open>
  The body of the \<open>try\<close> block after the lookup, on the parsed message. Reading
  \<open>message.type\<close> for the log line is where a parsed \<open>null\<close> throws; the log line converts
  the type to a string. Once \<open>message.type\<close> has been read, reading \<open>message.data\<close> cannot
  throw, so it is read here once for the three cases that pass it on. \<open>now'\<close> is the clock
  read by the handler.
\<close>

definition dispatch ::
  "nat \<Rightarrow> builtins \<Rightarrow> int \<Rightarrow> pid \<Rightarrow> json \<Rightarrow> server \<Rightarrow> (completion \<times> server) option" where
  "dispatch n B now' playerId message s =
     (case getProp message (str ''type'') of
        Inl e \<Rightarrow> Some (Throw, s)
      | Inr t \<Rightarrow>
          if toString_throws t then Some (Throw, s)
          else
            (case getProp message (str ''data'') of
               Inl e \<Rightarrow> Some (Throw, s)
             | Inr d \<Rightarrow>
                 if t = JStr (str ''player_join'') then handlePlayerJoin n now' playerId d s
                 else if t = JStr (str ''player_leave'') then handlePlayerLeave n playerId s
                 else if t = JStr (str ''chat_message'') then handleChatMessage n now' playerId d s
                 else if t = JStr (str ''player_move'') then handlePlayerMove n B playerId d s
                 else
                   (case sendToPlayer n playerId (error_msg ''Unknown message type'') s of
                      None \<Rightarrow> None
                    | Some s' \<Rightarrow> Some (Normal, s'))))"

text \<open>
  \<open>now\<close> is the clock read for \<open>lastActivity\<close>. An exception thrown anywhere in the
  \<open>try\<close> block, by the parser or by a handler, is answered in the \<open>catch\<close> block.
\<close>

definition touch :: "int \<Rightarrow> player \<Rightarrow> player" where
  "touch now p = p\<lparr>lastActivity := now\<rparr>"

definition handlePlayerMessage ::
  "nat \<Rightarrow> builtins \<Rightarrow> int \<Rightarrow> int \<Rightarrow> pid \<Rightarrow> jsstring \<Rightarrow> server \<Rightarrow> server option" where
  "handlePlayerMessage n B now now' playerId rawMessage s =
     (case JSON_parse B rawMessage of
        None \<Rightarrow> sendToPlayer n playerId (error_msg ''Invalid message format'') s
      | Some message \<Rightarrow>
          (case players_get s playerId of
             None \<Rightarrow> Some s
           | Some p \<Rightarrow>
               (case dispatch n B now' playerId message (players_update playerId (touch now) s) of
                  None \<Rightarrow> None
                | Some (Normal, s') \<Rightarrow> Some s'
                | Some (Throw, s') \<Rightarrow>
                    sendToPlayer n playerId (error_msg ''Invalid message format'') s')))"

section \<open>Connections, the reaper and the statistics\<close>

definition new_player :: "pid \<Rightarrow> transport \<Rightarrow> jsstring \<Rightarrow> int \<Rightarrow> player" where
  "new_player playerId w clientIP now =
     \<lparr>id_of = playerId, ws = w, data = None, location = str ''Park'',
      lastActivity = now, ip = clientIP\<rparr>"

text \<open>\<open>playerId\<close> is the value \<open>uuidv4()\<close> returned, \<open>now\<close> the clock.\<close>

definition handleNewConnection ::
  "nat \<Rightarrow> pid \<Rightarrow> transport \<Rightarrow> jsstring \<Rightarrow> int \<Rightarrow> server \<Rightarrow> server option" where
  "handleNewConnection n playerId w clientIP now s =
     sendToPlayer n playerId
       (mk_msg ''connection_established'' (JObj [(str ''playerId'', JStr playerId)]))
       (players_set playerId (new_player playerId w clientIP now) s)"

definition timeout :: int where
  "timeout = 5 * 60 * 1000"

definition stale :: "int \<Rightarrow> player \<Rightarrow> bool" where
  "stale now p \<longleftrightarrow> readyState (ws p) \<noteq> OPEN \<or> now - lastActivity p > timeout"

text \<open>
  The sweep iterates over the live \<open>Map\<close>: an entry that a cleanup deleted before the
  iterator reached it is not visited, and an entry is read when it is visited.
\<close>

fun cleanup_loop :: "nat \<Rightarrow> int \<Rightarrow> pid list \<Rightarrow> server \<Rightarrow> server option" where
  "cleanup_loop n now [] s = Some s"
| "cleanup_loop n now (playerId # ks) s =
     (case players_get s playerId of
        None \<Rightarrow> cleanup_loop n now ks s
      | Some p \<Rightarrow>
          if stale now p then
            (case handlePlayerDisconnect n playerId s of
               None \<Rightarrow> None
             | Some s' \<Rightarrow> cleanup_loop n now ks s')
          else cleanup_loop n now ks s)"

definition cleanupDisconnectedPlayers :: "nat \<Rightarrow> int \<Rightarrow> server \<Rightarrow> server option" where
  "cleanupDisconnectedPlayers n now s = cleanup_loop n now (map fst (players s)) s"

text \<open>
  \<open>logServerStats\<close> only reads: the total, the number of joined sessions and the joined
  sessions counted by location.
\<close>

definition logServerStats :: "server \<Rightarrow> nat \<times> nat \<times> (jsstring \<times> nat) list" where
  "logServerStats s =
     (length (players s),
      length (filter (\<lambda>p. data p \<noteq> None) (map snd (players s))),
      foldl (\<lambda>stats p.
               if data p \<noteq> None
               then assoc_set stats (location p)
                      ((case map_of stats (location p) of None \<Rightarrow> 0 | Some c \<Rightarrow> c) + 1)
               else stats)
            [] (map snd (players s)))"

section \<open>Events and reachable states\<close>

text \<open>
  What can happen to the server: a connection is accepted, a message arrives, a transport
  closes or reports an error (both run the disconnect cleanup), a timer fires, or the
  environment changes a transport.
\<close>

datatype event =
    Connection pid transport jsstring int
  | Message pid jsstring int int
  | Close pid
  | Error pid
  | Sweep int
  | Stats
  | Transport pid transport

definition set_ws :: "transport \<Rightarrow> player \<Rightarrow> player" where
  "set_ws w p = p\<lparr>ws := w\<rparr>"

fun step :: "nat \<Rightarrow> builtins \<Rightarrow> event \<Rightarrow> server \<Rightarrow> server option" where
  "step n B (Connection playerId w clientIP now) s = handleNewConnection n playerId w clientIP now s"
| "step n B (Message playerId raw now now') s = handlePlayerMessage n B now now' playerId raw s"
| "step n B (Close playerId) s = handlePlayerDisconnect n playerId s"
| "step n B (Error playerId) s = handlePlayerDisconnect n playerId s"
| "step n B (Sweep now) s = cleanupDisconnectedPlayers n now s"
| "step n B Stats s = Some s"
| "step n B (Transport playerId w) s = Some (players_update playerId (set_ws w) s)"

definition initial :: server where
  "initial = \<lparr>players = [], sent = []\<rparr>"

inductive reachable :: "builtins \<Rightarrow> server \<Rightarrow> bool" for B :: builtins where
  reachable_initial: "reachable B initial"
| reachable_step: "reachable B s \<Longrightarrow> step n B e s = Some s' \<Longrightarrow> reachable B s'"


section \<open>Vocabulary of the properties\<close>

text \<open>
  The registry as a \<open>Map\<close>: no key twice, and every session stored under its own id.
  The empty registry has this form and every operation keeps it.
\<close>

definition wf_registry :: "server \<Rightarrow> bool" where
  "wf_registry s \<longleftrightarrow>
     distinct (map fst (players s)) \<and> (\<forall>(k, p) \<in> set (players s). id_of p = k)"

text \<open>No transport of the registry throws on \<open>send\<close>.\<close>

definition reliable :: "server \<Rightarrow> bool" where
  "reliable s \<longleftrightarrow> (\<forall>(k, p) \<in> set (players s). \<not> send_throws (ws p))"

text \<open>The session is registered and its transport is open.\<close>

definition is_open :: "server \<Rightarrow> pid \<Rightarrow> bool" where
  "is_open s k = (case players_get s k of None \<Rightarrow> False | Some p \<Rightarrow> readyState (ws p) = OPEN)"

text \<open>The state after the given messages have been written, in order.\<close>

definition deliver :: "(pid \<times> json) list \<Rightarrow> server \<Rightarrow> server" where
  "deliver ms s = s\<lparr>sent := sent s @ ms\<rparr>"

text \<open>The sessions of a broadcast that a message is actually written to.\<close>

definition recipients :: "server \<Rightarrow> jsstring \<Rightarrow> pid option \<Rightarrow> player list" where
  "recipients s loc ex = filter (\<lambda>p. readyState (ws p) = OPEN) (getPlayersInLocation s loc ex)"

text \<open>The session is registered and has joined (its profile is set).\<close>

definition active :: "server \<Rightarrow> pid \<Rightarrow> bool" where
  "active s k = (case players_get s k of None \<Rightarrow> False | Some p \<Rightarrow> data p \<noteq> None)"

text \<open>The messages written between two states, oldest first.\<close>

definition news :: "server \<Rightarrow> server \<Rightarrow> (pid \<times> json) list" where
  "news s s' = drop (length (sent s)) (sent s')"

text \<open>
  From \<open>s\<close> to \<open>s'\<close> sessions were only removed, none changed or added, and messages
  were only written.
\<close>

definition evolves :: "server \<Rightarrow> server \<Rightarrow> bool" where
  "evolves s s' \<longleftrightarrow>
     (\<exists>P. players s' = filter P (players s)) \<and> (\<exists>ms. sent s' = sent s @ ms)"

text \<open>
  \<open>r\<close> receives a broadcast to \<open>loc\<close> that excludes \<open>ex\<close>: it has joined, is in
  \<open>loc\<close>, is not excluded and has an open transport.
\<close>

definition rcpt :: "server \<Rightarrow> jsstring \<Rightarrow> pid option \<Rightarrow> pid \<Rightarrow> bool" where
  "rcpt s loc ex r \<longleftrightarrow>
     Some r \<noteq> ex \<and>
     (\<exists>q. players_get s r = Some q \<and> data q \<noteq> None \<and> location q = loc \<and>
          readyState (ws q) = OPEN)"

text \<open>
  A written message that is the \<open>player_left\<close> of a joined session \<open>k\<close>, on the
  transport of a receiver of the broadcast to the location of \<open>k\<close> that excludes \<open>k\<close>.
\<close>

definition left_entry :: "server \<Rightarrow> pid \<times> json \<Rightarrow> bool" where
  "left_entry s e \<longleftrightarrow>
     (\<exists>k p. players_get s k = Some p \<and> data p \<noteq> None \<and> snd e = player_left_msg k p \<and>
            rcpt s (location p) (Some k) (fst e))"

text \<open>
  The list of sessions a \<open>forEach\<close> runs over was taken from an earlier registry: each
  of them is still registered unchanged, or is gone.
\<close>

definition snapshot :: "server \<Rightarrow> player list \<Rightarrow> bool" where
  "snapshot s ps \<longleftrightarrow>
     (\<forall>p \<in> set ps. players_get s (id_of p) = Some p \<or> players_get s (id_of p) = None)"

text \<open>A written message that is the message of a \<open>forEach\<close>, to one of its sessions.\<close>

definition fe_entry :: "server \<Rightarrow> player list \<Rightarrow> json \<Rightarrow> pid \<times> json \<Rightarrow> bool" where
  "fe_entry s ps m e \<longleftrightarrow>
     snd e = m \<and>
     (\<exists>p \<in> set ps. fst e = id_of p \<and> players_get s (id_of p) = Some p \<and>
                     readyState (ws p) = OPEN)"

text \<open>Concrete transports, sessions and registries, for the examples.\<close>

definition w_open :: transport where
  "w_open = \<lparr>readyState = OPEN, send_throws = False\<rparr>"

definition mk_player :: "pid \<Rightarrow> jsobject option \<Rightarrow> jsstring \<Rightarrow> player" where
  "mk_player k d loc =
     \<lparr>id_of = k, ws = w_open, data = d, location = loc, lastActivity = 0, ip = []\<rparr>"

definition park_beach :: server where
  "park_beach =
     \<lparr>players =
        [(str ''a'', mk_player (str ''a'') (Some []) (str ''Park'')),
         (str ''b'', mk_player (str ''b'') (Some []) (str ''Park'')),
         (str ''c'', mk_player (str ''c'') (Some []) (str ''Beach'')),
         (str ''d'', mk_player (str ''d'') None (str ''Park''))],
      sent = []\<rparr>"

definition disconnect_sends :: "server \<Rightarrow> pid \<Rightarrow> (pid \<times> json) list" where
  "disconnect_sends s k =
     (case players_get s k of
        None \<Rightarrow> []
      | Some p \<Rightarrow>
          if data p \<noteq> None
          then map (\<lambda>q. (id_of q, player_left_msg k p)) (recipients s (location p) (Some k))
          else [])"

definition park_beach_without_a :: server where
  "park_beach_without_a =
     \<lparr>players =
             [(str ''b'', mk_player (str ''b'') (Some []) (str ''Park'')),
              (str ''c'', mk_player (str ''c'') (Some []) (str ''Beach'')),
              (str ''d'', mk_player (str ''d'') None (str ''Park''))],
           sent = [(str ''b'', mk_msg ''player_left''
                     (JObj [(str ''id'', JStr (str ''a'')), (str ''nickname'', JUndefined)]))]\<rparr>"

definition missing_data :: builtins where
  "missing_data =
     \<lparr>JSON_parse = (\<lambda>raw. Some (JObj [(str ''type'', JStr (str ''player_move''))])),
      parseFloat = (\<lambda>v. case v of JNum x \<Rightarrow> x | _ \<Rightarrow> NaN)\<rparr>"

definition move_unconvertible :: builtins where
  "move_unconvertible =
     \<lparr>JSON_parse = (\<lambda>raw.
        Some (JObj [(str ''type'', JStr (str ''player_move'')),
                    (str ''data'', JObj [(str ''x'', JObj [(str ''toString'', JNum (Fin 1))]),
                                         (str ''y'', JNum (Fin 5))])])),
      parseFloat = (\<lambda>v. case v of JNum x \<Rightarrow> x | _ \<Rightarrow> NaN)\<rparr>"

definition known_type :: "json \<Rightarrow> bool" where
  "known_type t \<longleftrightarrow>
     t = JStr (str ''player_join'') \<or> t = JStr (str ''player_leave'') \<or>
     t = JStr (str ''chat_message'') \<or> t = JStr (str ''player_move'')"

text \<open>
  The error an envelope is refused with: an unparsable text, a parsed \<open>null\<close> and a type
  that cannot be logged are an invalid format, any other type the server does not know is
  an unknown type. A message of a known type is not refused here.
\<close>

datatype refusal = Invalid_format | Unknown_type

fun refusal_text :: "refusal \<Rightarrow> string" where
  "refusal_text Invalid_format = ''Invalid message format''"
| "refusal_text Unknown_type = ''Unknown message type''"

definition refused :: "builtins \<Rightarrow> jsstring \<Rightarrow> refusal option" where
  "refused B raw =
     (case JSON_parse B raw of
        None \<Rightarrow> Some Invalid_format
      | Some msg \<Rightarrow>
          (case getProp msg (str ''type'') of
             Inl e \<Rightarrow> Some Invalid_format
           | Inr t \<Rightarrow>
               if toString_throws t then Some Invalid_format
               else if known_type t then None
               else Some Unknown_type))"

definition bogus :: builtins where
  "bogus =
     \<lparr>JSON_parse = (\<lambda>raw. Some (JObj [(str ''type'', JStr (str ''bogus''))])),
      parseFloat = (\<lambda>v. case v of JNum x \<Rightarrow> x | _ \<Rightarrow> NaN)\<rparr>"




definition join_unloggable :: builtins where
  "join_unloggable =
     \<lparr>JSON_parse = (\<lambda>raw.
        Some (JObj [(str ''type'', JStr (str ''player_join'')),
                    (str ''data'', JObj [(str ''nickname'',
                                         JObj [(str ''toString'', JNum (Fin 1))])])])),
      parseFloat = (\<lambda>v. case v of JNum x \<Rightarrow> x | _ \<Rightarrow> NaN)\<rparr>"

definition profile_Al :: jsobject where
  "profile_Al =
     [(str ''nickname'', JStr (str ''Al'')), (str ''id'', JStr (str ''d'')),
      (str ''joinTime'', JNum (Fin 6))]"

definition profile_ok :: "pid \<Rightarrow> player \<Rightarrow> bool" where
  "profile_ok k p \<longleftrightarrow> (\<forall>d. data p = Some d \<longrightarrow> map_of d (str ''id'') = Some (JStr k))"

definition registry_inv :: "server \<Rightarrow> bool" where
  "registry_inv s \<longleftrightarrow>
     wf_registry s \<and>
     (\<forall>(k, p) \<in> set (players s). location p = str ''Park'' \<and> profile_ok k p)"

definition good_for :: "pid \<Rightarrow> (player \<Rightarrow> player) \<Rightarrow> bool" where
  "good_for k f \<longleftrightarrow>
     (\<forall>p. id_of (f p) = id_of p \<and> location (f p) = location p \<and>
          (profile_ok k p \<longrightarrow> profile_ok k (f p)))"

definition broadcast_type :: "json \<Rightarrow> bool" where
  "broadcast_type m \<longleftrightarrow>
     getProp m (str ''type'') = Inr (JStr (str ''player_joined'')) \<or>
     getProp m (str ''type'') = Inr (JStr (str ''player_left'')) \<or>
     getProp m (str ''type'') = Inr (JStr (str ''player_moved'')) \<or>
     getProp m (str ''type'') = Inr (JStr (str ''chat_message''))"

definition payload :: "json \<Rightarrow> json" where
  "payload m = (case getProp m (str ''data'') of Inl e \<Rightarrow> JUndefined | Inr d \<Rightarrow> d)"

definition field :: "json \<Rightarrow> string \<Rightarrow> json" where
  "field v k = (case getProp v (str k) of Inl e \<Rightarrow> JUndefined | Inr x \<Rightarrow> x)"

text \<open>The session a broadcast names: \<open>playerId\<close> in a chat message, \<open>id\<close> in the others.\<close>

definition actor :: "json \<Rightarrow> json" where
  "actor m =
     (if getProp m (str ''type'') = Inr (JStr (str ''chat_message''))
      then field (payload m) ''playerId'' else field (payload m) ''id'')"

text \<open>The profiles a \<open>player_list\<close> carries.\<close>

definition listed :: "json \<Rightarrow> json list" where
  "listed m =
     (if getProp m (str ''type'') = Inr (JStr (str ''player_list''))
      then (case payload m of JArr xs \<Rightarrow> xs | _ \<Rightarrow> []) else [])"

text \<open>
  A message written to a session is in order with respect to a registry when, if it is a
  location broadcast, the session it is written to and the session it names are both
  joined there, and if it is a \<open>player_list\<close>, every profile it lists is that of a joined
  session.
\<close>

definition safe :: "server \<Rightarrow> pid \<times> json \<Rightarrow> bool" where
  "safe s e \<longleftrightarrow>
     (broadcast_type (snd e) \<longrightarrow>
        active s (fst e) \<and> (\<exists>k. actor (snd e) = JStr k \<and> active s k)) \<and>
     (\<forall>x \<in> set (listed (snd e)). \<exists>k. field x ''id'' = JStr k \<and> active s k)"

text \<open>
  The shape of what handling a message of session \<open>k\<close> does to the registry: it updates
  the entry of \<open>k\<close> (keeping its id and location, and its profile unset unless the
  message is a join), then only removes sessions and writes messages, each of them in
  order with respect to the updated registry.
\<close>

definition shape :: "pid \<Rightarrow> bool \<Rightarrow> server \<Rightarrow> server \<Rightarrow> bool" where
  "shape k j s s' \<longleftrightarrow>
     (\<exists>f. good_for k f \<and> (j \<or> (\<forall>p. data p = None \<longrightarrow> data (f p) = None)) \<and>
          evolves (players_update k f s) s' \<and>
          (\<forall>e \<in> set (news s s'). safe (players_update k f s) e))"

definition is_join :: "builtins \<Rightarrow> jsstring \<Rightarrow> bool" where
  "is_join B raw =
     (case JSON_parse B raw of
        None \<Rightarrow> False
      | Some msg \<Rightarrow> getProp msg (str ''type'') = Inr (JStr (str ''player_join'')))"

definition joins :: "builtins \<Rightarrow> event \<Rightarrow> pid \<Rightarrow> bool" where
  "joins B e x =
     (case e of Message k raw now now' \<Rightarrow> k = x \<and> is_join B raw | _ \<Rightarrow> False)"

definition join_Al :: builtins where
  "join_Al =
     \<lparr>JSON_parse = (\<lambda>raw.
        Some (JObj [(str ''type'', JStr (str ''player_join'')),
                    (str ''data'', JObj [(str ''nickname'', JStr (str ''Al''))])])),
      parseFloat = (\<lambda>v. case v of JNum x \<Rightarrow> x | _ \<Rightarrow> NaN)\<rparr>"

definition lobby :: server where
  "lobby =
     \<lparr>players =
        [(str ''d'', (mk_player (str ''d'') (Some profile_Al) (str ''Park''))\<lparr>lastActivity := 5\<rparr>),
         (str ''e'', (mk_player (str ''e'') None (str ''Park''))\<lparr>lastActivity := 2\<rparr>)],
      sent =
        [(str ''d'', mk_msg ''connection_established'' (JObj [(str ''playerId'', JStr (str ''d''))])),
         (str ''e'', mk_msg ''connection_established'' (JObj [(str ''playerId'', JStr (str ''e''))])),
         (str ''d'', mk_msg ''player_list'' (JArr []))]\<rparr>"

definition lobby_rejoined :: server where
  "lobby_rejoined =
     \<lparr>players =
        [(str ''d'', (mk_player (str ''d'')
                       (Some [(str ''nickname'', JStr (str ''Al'')), (str ''id'', JStr (str ''d'')),
                              (str ''joinTime'', JNum (Fin 8))]) (str ''Park''))
                    \<lparr>lastActivity := 7\<rparr>),
         (str ''e'', (mk_player (str ''e'') None (str ''Park''))\<lparr>lastActivity := 2\<rparr>)],
      sent = sent lobby @ [(str ''d'', mk_msg ''player_list'' (JArr []))]\<rparr>"

definition stale_keys :: "int \<Rightarrow> server \<Rightarrow> pid list" where
  "stale_keys now s = map fst (filter (\<lambda>(k, p). stale now p) (players s))"

text \<open>The disconnect cleanup run for each id of a list in turn.\<close>

fun evict_each :: "nat \<Rightarrow> pid list \<Rightarrow> server \<Rightarrow> server option" where
  "evict_each n [] s = Some s"
| "evict_each n (k # ks) s =
     (case handlePlayerDisconnect n k s of None \<Rightarrow> None | Some s' \<Rightarrow> evict_each n ks s')"

text \<open>
  What the disconnect cleanup of \<open>k\<close> does where no send throws: \<open>player_left\<close> to the
  open transports of the other joined sessions of its location if it had joined, then
  the removal.
\<close>

definition evicted :: "pid \<Rightarrow> server \<Rightarrow> server" where
  "evicted k s = players_delete k (deliver (disconnect_sends s k) s)"

section \<open>Delivery where no send throws\<close>

lemma players_deliver [simp]: "players (deliver ms s) = players s"
  by (simp add: deliver_def)

lemma sent_deliver [simp]: "sent (deliver ms s) = sent s @ ms"
  by (simp add: deliver_def)

lemma deliver_Nil [simp]: "deliver [] s = s"
  by (simp add: deliver_def)

lemma deliver_deliver [simp]: "deliver ms' (deliver ms s) = deliver (ms @ ms') s"
  by (simp add: deliver_def)

lemma players_get_deliver [simp]: "players_get (deliver ms s) k = players_get s k"
  by (simp add: players_get_def)

lemma reliable_deliver [simp]: "reliable (deliver ms s) = reliable s"
  by (simp add: reliable_def)

lemma is_open_deliver [simp]: "is_open (deliver ms s) k = is_open s k"
  by (simp add: is_open_def)

lemma reliable_get: "reliable s \<Longrightarrow> players_get s k = Some p \<Longrightarrow> \<not> send_throws (ws p)"
  by (auto simp: reliable_def players_get_def dest: map_of_SomeD)

lemma sendToPlayer_reliable:
  "reliable s \<Longrightarrow> sendToPlayer n k m s = Some (deliver (if is_open s k then [(k, m)] else []) s)"
  by (auto simp: is_open_def deliver_def dest: reliable_get split: option.splits)

lemma forEach_send_reliable:
  "reliable s \<Longrightarrow>
   forEach_send n ps m s = Some (deliver (map (\<lambda>p. (id_of p, m)) (filter (\<lambda>p. is_open s (id_of p)) ps)) s)"
proof (induction ps arbitrary: s)
  case Nil
  then show ?case by simp
next
  case (Cons p ps)
  show ?case
    using Cons.prems by (simp add: sendToPlayer_reliable Cons.IH del: sendToPlayer.simps)
qed

lemma wf_get: "wf_registry s \<Longrightarrow> (k, p) \<in> set (players s) \<Longrightarrow> players_get s k = Some p \<and> id_of p = k"
  by (auto simp: wf_registry_def players_get_def)

lemma in_getPlayersInLocation:
  "p \<in> set (getPlayersInLocation s loc ex) \<longleftrightarrow>
   (\<exists>k. (k, p) \<in> set (players s) \<and> Some k \<noteq> ex \<and> location p = loc \<and> data p \<noteq> None)"
  by (auto simp: image_iff)

lemma recipients_open:
  "wf_registry s \<Longrightarrow>
   filter (\<lambda>p. is_open s (id_of p)) (getPlayersInLocation s loc ex) =
   filter (\<lambda>p. readyState (ws p) = OPEN) (getPlayersInLocation s loc ex)"
  by (rule filter_cong) (auto simp: is_open_def dest!: wf_get)

lemma broadcast_reliable:
  "wf_registry s \<Longrightarrow> reliable s \<Longrightarrow>
   broadcastToLocation n loc m ex s = Some (deliver (map (\<lambda>p. (id_of p, m)) (recipients s loc ex)) s)"
  by (simp add: forEach_send_reliable recipients_open recipients_def del: getPlayersInLocation.simps)

section \<open>States that only lose sessions and gain messages\<close>

lemma evolvesI: "players s' = filter P (players s) \<Longrightarrow> sent s' = sent s @ ms \<Longrightarrow> evolves s s'"
  unfolding evolves_def by blast

lemma evolves_sent: "evolves s s' \<Longrightarrow> sent s' = sent s @ news s s'"
  by (auto simp: evolves_def news_def)

lemma evolves_refl [simp]: "evolves s s"
  by (rule evolvesI [where P = "\<lambda>_. True" and ms = "[]"]) simp_all

lemma news_refl [simp]: "news s s = []"
  by (simp add: news_def)

lemma news_trans: "evolves s s1 \<Longrightarrow> evolves s1 s2 \<Longrightarrow> news s s2 = news s s1 @ news s1 s2"
proof -
  assume a: "evolves s s1" "evolves s1 s2"
  have "sent s2 = sent s @ (news s s1 @ news s1 s2)"
    using evolves_sent [OF a(1)] evolves_sent [OF a(2)] by simp
  then show ?thesis unfolding news_def [of s s2] by simp
qed

lemma evolves_trans: "evolves s s1 \<Longrightarrow> evolves s1 s2 \<Longrightarrow> evolves s s2"
proof -
  assume a: "evolves s s1" "evolves s1 s2"
  from a obtain P Q where "players s1 = filter P (players s)" "players s2 = filter Q (players s1)"
    unfolding evolves_def by blast
  then have "players s2 = filter (\<lambda>x. P x \<and> Q x) (players s)" by (simp add: conj_commute)
  moreover have "sent s2 = sent s @ (news s s1 @ news s1 s2)"
    using evolves_sent [OF a(1)] evolves_sent [OF a(2)] by simp
  ultimately show ?thesis by (rule evolvesI)
qed

lemma evolves_deliver [simp]: "evolves s (deliver ms s)"
  by (rule evolvesI [where P = "\<lambda>_. True" and ms = ms]) simp_all

lemma news_deliver [simp]: "news s (deliver ms s) = ms"
  by (simp add: news_def)

lemma evolves_delete [simp]: "evolves s (players_delete k s)"
  by (rule evolvesI [where P = "\<lambda>kp. fst kp \<noteq> k" and ms = "[]"]) (simp_all add: players_delete_def)

lemma news_delete [simp]: "news s (players_delete k s) = []"
  by (simp add: news_def players_delete_def)

lemma evolves_wf: "wf_registry s \<Longrightarrow> evolves s s' \<Longrightarrow> wf_registry s'"
  unfolding evolves_def wf_registry_def
  by (auto simp: distinct_map_filter)

lemma evolves_get:
  assumes "wf_registry s" "evolves s s'" "players_get s' k = Some p"
  shows "players_get s k = Some p"
proof -
  from assms(2) obtain P where P: "players s' = filter P (players s)"
    unfolding evolves_def by blast
  from assms(3) have "(k, p) \<in> set (players s')"
    by (auto simp: players_get_def dest: map_of_SomeD)
  with P have "(k, p) \<in> set (players s)" by auto
  with assms(1) show ?thesis by (simp add: wf_get)
qed

lemma evolves_get_None:
  "evolves s s' \<Longrightarrow> players_get s k = None \<Longrightarrow> players_get s' k = None"
  unfolding evolves_def players_get_def
  by (auto simp: map_of_eq_None_iff)

lemma evolves_active: "wf_registry s \<Longrightarrow> evolves s s' \<Longrightarrow> active s' k \<Longrightarrow> active s k"
  by (auto simp: active_def dest: evolves_get split: option.splits)

lemma get_delete [simp]: "players_get (players_delete k s) k = None"
  by (auto simp: players_get_def players_delete_def map_of_eq_None_iff)

section \<open>What the delivery functions write, in general\<close>

lemma rcpt_mono: "wf_registry s \<Longrightarrow> evolves s s1 \<Longrightarrow> rcpt s1 loc ex r \<Longrightarrow> rcpt s loc ex r"
  unfolding rcpt_def by (blast dest: evolves_get)

lemma left_entry_mono:
  "wf_registry s \<Longrightarrow> evolves s s1 \<Longrightarrow> left_entry s1 e \<Longrightarrow> left_entry s e"
  unfolding left_entry_def by (blast dest: evolves_get rcpt_mono)

lemma snapshot_mono: "wf_registry s \<Longrightarrow> evolves s s1 \<Longrightarrow> snapshot s ps \<Longrightarrow> snapshot s1 ps"
  unfolding snapshot_def
  by (metis evolves_get evolves_get_None option.exhaust)

lemma fe_entry_mono:
  "wf_registry s \<Longrightarrow> evolves s s1 \<Longrightarrow> fe_entry s1 ps m e \<Longrightarrow> fe_entry s (p # ps) m e"
  unfolding fe_entry_def by (auto dest: evolves_get)

lemma snapshot_getPlayers: "wf_registry s \<Longrightarrow> snapshot s (getPlayersInLocation s loc ex)"
  unfolding snapshot_def by (auto dest: wf_get)

lemma fe_entry_rcpt:
  "wf_registry s \<Longrightarrow> fe_entry s (getPlayersInLocation s loc ex) m e \<Longrightarrow>
   snd e = m \<and> rcpt s loc ex (fst e)"
  unfolding fe_entry_def rcpt_def by (auto dest: wf_get)

declare sendToPlayer.simps [simp del] handlePlayerDisconnect.simps [simp del]
  broadcastToLocation.simps [simp del] getPlayersInLocation.simps [simp del]

lemma core:
  "wf_registry s \<Longrightarrow> sendToPlayer n k m s = Some s' \<Longrightarrow>
     evolves s s' \<and> (\<forall>e \<in> set (news s s'). e = (k, m) \<and> is_open s k \<or> left_entry s e)"
  "wf_registry s \<Longrightarrow> handlePlayerDisconnect n k s = Some s' \<Longrightarrow>
     evolves s s' \<and> players_get s' k = None \<and> (\<forall>e \<in> set (news s s'). left_entry s e)"
  "wf_registry s \<Longrightarrow> broadcastToLocation n loc m ex s = Some s' \<Longrightarrow>
     evolves s s' \<and> (\<forall>e \<in> set (news s s'). snd e = m \<and> rcpt s loc ex (fst e) \<or> left_entry s e)"
  "wf_registry s \<Longrightarrow> snapshot s ps \<Longrightarrow> forEach_send n ps m s = Some s' \<Longrightarrow>
     evolves s s' \<and> (\<forall>e \<in> set (news s s'). fe_entry s ps m e \<or> left_entry s e)"
proof (induction n k m s and n k s and n loc m ex s and n ps m s
       arbitrary: s' and s' and s' and s'
       rule: sendToPlayer_handlePlayerDisconnect_broadcastToLocation_forEach_send.induct)
  case (1 n playerId message s)
  show ?case
  proof (cases "players_get s playerId")
    case None
    with "1.prems" show ?thesis by (simp add: sendToPlayer.simps)
  next
    case (Some p)
    show ?thesis
    proof (cases "readyState (ws p) = OPEN")
      case False
      with Some "1.prems" show ?thesis by (simp add: sendToPlayer.simps)
    next
      case True
      show ?thesis
      proof (cases "send_throws (ws p)")
        case False
        with True Some "1.prems" have "s' = deliver [(playerId, message)] s"
          by (simp add: sendToPlayer.simps deliver_def)
        with True Some show ?thesis by (simp add: is_open_def)
      next
        case thr: True
        with True Some "1.prems" obtain n' where n': "n = Suc n'"
          and d: "handlePlayerDisconnect n' playerId s = Some s'"
          by (cases n) (simp_all add: sendToPlayer.simps)
        from "1.IH" [OF Some True thr n' "1.prems"(1) d] show ?thesis by blast
      qed
    qed
  qed
next
  case (2 n playerId s)
  show ?case
  proof (cases "players_get s playerId")
    case None
    with "2.prems" show ?thesis by (simp add: handlePlayerDisconnect.simps)
  next
    case (Some p)
    show ?thesis
    proof (cases "data p = None")
      case True
      with Some "2.prems" have "s' = players_delete playerId s"
        by (simp add: handlePlayerDisconnect.simps)
      then show ?thesis by simp
    next
      case False
      with Some "2.prems" obtain s1 where
        b: "broadcastToLocation n (location p) (player_left_msg playerId p) (Some playerId) s = Some s1"
        and s': "s' = players_delete playerId s1"
        by (auto simp: handlePlayerDisconnect.simps split: option.splits)
      from "2.IH" [OF Some False "2.prems"(1) b]
      have ev: "evolves s s1"
        and en: "\<forall>e \<in> set (news s s1).
                  snd e = player_left_msg playerId p \<and> rcpt s (location p) (Some playerId) (fst e)
                  \<or> left_entry s e"
        by blast+
      have ev': "evolves s s'" using ev s' evolves_trans evolves_delete by blast
      have "news s s' = news s s1" using news_trans [OF ev, of s'] s' by simp
      moreover have "\<forall>e \<in> set (news s s1). left_entry s e"
        using en Some False unfolding left_entry_def by blast
      ultimately show ?thesis using ev' s' by simp
    qed
  qed
next
  case (3 n loc message excludePlayerId s)
  from "3.prems" have f: "forEach_send n (getPlayersInLocation s loc excludePlayerId) message s = Some s'"
    by (simp add: broadcastToLocation.simps)
  from "3.IH" [OF "3.prems"(1) snapshot_getPlayers [OF "3.prems"(1)] f]
  show ?case using fe_entry_rcpt [OF "3.prems"(1)] by blast
next
  case (4 n message s)
  then show ?case by simp
next
  case (5 n p ps message s)
  from "5.prems"(3) obtain s1 where
    a: "sendToPlayer n (id_of p) message s = Some s1" and b: "forEach_send n ps message s1 = Some s'"
    by (auto split: option.splits)
  from "5.IH"(1) [OF "5.prems"(1) a]
  have ev1: "evolves s s1"
    and en1: "\<forall>e \<in> set (news s s1). e = (id_of p, message) \<and> is_open s (id_of p) \<or> left_entry s e"
    by blast+
  have wf1: "wf_registry s1" using "5.prems"(1) ev1 by (rule evolves_wf)
  have sn: "snapshot s (p # ps)" by fact
  then have "snapshot s ps" by (simp add: snapshot_def)
  then have sn1: "snapshot s1 ps"
    using "5.prems"(1) ev1 by (rule snapshot_mono [rotated 2])
  from "5.IH"(2) [OF a wf1 sn1 b]
  have ev2: "evolves s1 s'"
    and en2: "\<forall>e \<in> set (news s1 s'). fe_entry s1 ps message e \<or> left_entry s1 e"
    by blast+
  have first: "fe_entry s (p # ps) message e"
    if "e = (id_of p, message)" "is_open s (id_of p)" for e
    using that sn unfolding fe_entry_def snapshot_def is_open_def
    by (auto split: option.splits)
  have tail: "fe_entry s (p # ps) message e" if "fe_entry s ps message e" for e
    using that unfolding fe_entry_def by auto
  have "\<forall>e \<in> set (news s s1). fe_entry s (p # ps) message e \<or> left_entry s e"
    using en1 first by blast
  moreover have "\<forall>e \<in> set (news s1 s'). fe_entry s (p # ps) message e \<or> left_entry s e"
    using en2 fe_entry_mono [OF "5.prems"(1) ev1] left_entry_mono [OF "5.prems"(1) ev1] by blast
  ultimately show ?case
    using evolves_trans [OF ev1 ev2] news_trans [OF ev1 ev2] by auto
qed

section \<open>The example registries\<close>

lemma str_simps [simp]: "str [] = []" "str (c # cs) = of_nat (of_char c) # str cs"
  by (simp_all add: str_def)

lemma wf_park_beach: "wf_registry park_beach"
  by (simp add: wf_registry_def park_beach_def mk_player_def)

lemma reliable_park_beach: "reliable park_beach"
  by (simp add: reliable_def park_beach_def mk_player_def w_open_def)

section \<open>The disconnect cleanup\<close>

lemma delete_absent: "players_get s k = None \<Longrightarrow> players_delete k s = s"
proof -
  assume "players_get s k = None"
  then have "\<forall>kp \<in> set (players s). fst kp \<noteq> k"
    by (auto simp: players_get_def map_of_eq_None_iff)
  then have "filter (\<lambda>kp. fst kp \<noteq> k) (players s) = players s"
    by (simp add: filter_id_conv)
  then show ?thesis by (simp add: players_delete_def)
qed

lemma disconnect_absent: "players_get s k = None \<Longrightarrow> handlePlayerDisconnect n k s = Some s"
  by (simp add: handlePlayerDisconnect.simps)

lemma disconnect_reliable:
  "wf_registry s \<Longrightarrow> reliable s \<Longrightarrow>
   handlePlayerDisconnect n k s = Some (players_delete k (deliver (disconnect_sends s k) s))"
  by (cases "players_get s k")
     (simp_all add: handlePlayerDisconnect.simps disconnect_sends_def broadcast_reliable delete_absent)

lemma distinct_recipient_ids:
  "wf_registry s \<Longrightarrow> distinct (map id_of (recipients s loc ex))"
proof -
  assume wf: "wf_registry s"
  have "map id_of (getPlayersInLocation s loc ex) =
        map fst (filter (\<lambda>(k, p). Some k \<noteq> ex \<and> location p = loc \<and> data p \<noteq> None) (players s))"
    using wf unfolding getPlayersInLocation.simps wf_registry_def
    by auto
  moreover have "distinct \<dots>" using wf unfolding wf_registry_def by (simp add: distinct_map_filter)
  ultimately have "distinct (map id_of (getPlayersInLocation s loc ex))" by simp
  then show ?thesis unfolding recipients_def by (simp add: distinct_map_filter)
qed

section \<open>Updating one session\<close>

lemma players_update_sent [simp]: "sent (players_update k f s) = sent s"
  by (simp add: players_update_def)

lemma news_update [simp]: "news (players_update k f s) s' = news s s'"
  by (simp add: news_def)

lemma map_of_update:
  "map_of (map (\<lambda>(k', p). if k' = k then (k', f p) else (k', p)) xs) k' =
   (if k' = k then map_option f (map_of xs k') else map_of xs k')"
  by (induction xs) auto

lemma players_get_update:
  "players_get (players_update k f s) k' =
   (if k' = k then map_option f (players_get s k) else players_get s k')"
  by (simp add: players_get_def players_update_def map_of_update)

lemma keys_update [simp]: "map fst (players (players_update k f s)) = map fst (players s)"
  by (auto simp: players_update_def)

lemma wf_update:
  "(\<And>p. id_of (f p) = id_of p) \<Longrightarrow> wf_registry s \<Longrightarrow> wf_registry (players_update k f s)"
  unfolding wf_registry_def keys_update
  by (auto simp: players_update_def split: if_splits)

lemma reliable_update:
  "(\<And>p. ws (f p) = ws p) \<Longrightarrow> reliable s \<Longrightarrow> reliable (players_update k f s)"
  unfolding reliable_def
  by (auto simp: players_update_def split: if_splits)

lemma getPlayers_update_excl:
  "getPlayersInLocation (players_update k f s) loc (Some k) = getPlayersInLocation s loc (Some k)"
proof -
  have "map snd (filter (\<lambda>(k', p). Some k' \<noteq> Some k \<and> location p = loc \<and> data p \<noteq> None)
          (map (\<lambda>(k', p). if k' = k then (k', f p) else (k', p)) xs)) =
        map snd (filter (\<lambda>(k', p). Some k' \<noteq> Some k \<and> location p = loc \<and> data p \<noteq> None) xs)"
    for xs :: "(pid \<times> player) list"
    by (induction xs) (auto split: if_splits)
  then show ?thesis by (simp add: getPlayersInLocation.simps players_update_def)
qed

lemma recipients_update_excl:
  "recipients (players_update k f s) loc (Some k) = recipients s loc (Some k)"
  by (simp add: recipients_def getPlayers_update_excl)

lemma map_of_setProp: "map_of (setProp d k v) k' = (if k' = k then Some v else map_of d k')"
  by (induction d) auto

lemma clamp_coord_range: "\<exists>r. clamp_coord f = Fin r \<and> 0 \<le> r \<and> r \<le> 100"
  by (cases f) (auto simp: clamp_coord_def or0_def)

lemma clamp_coord_NaN: "clamp_coord NaN = Fin 0"
  by (simp add: clamp_coord_def or0_def)

lemma id_set_position [simp]: "id_of (set_position x y p) = id_of p"
  by (simp add: set_position_def)

lemma ws_set_position [simp]: "ws (set_position x y p) = ws p"
  by (simp add: set_position_def)

lemma move_decompose:
  assumes "players_get s k = Some p" "data p = Some d"
    "getProp moveData (str ''x'') = Inr vx" "call_parseFloat B vx = Inr fx"
    "getProp moveData (str ''y'') = Inr vy" "call_parseFloat B vy = Inr fy"
  shows "handlePlayerMove n B k moveData s =
     map_option (Pair Normal)
       (broadcastToLocation n (location p)
          (player_moved_msg k (clamp_coord fx) (clamp_coord fy)) (Some k)
          (players_update k (set_position (clamp_coord fx) (clamp_coord fy)) s))"
  using assms by (simp add: handlePlayerMove_def Let_def split: option.splits)

lemma rcpt_update_excl:
  "rcpt (players_update k f s) loc (Some k) r = rcpt s loc (Some k) r"
  by (auto simp: rcpt_def players_get_update)

section \<open>Dispatching a message\<close>

lemma getProp_Inl: "getProp v k = Inl e \<longleftrightarrow> v = JUndefined \<or> v = JNull"
  by (cases v) (auto intro: exn.exhaust [of e])

lemma getProp_Inr: "v \<noteq> JUndefined \<Longrightarrow> v \<noteq> JNull \<Longrightarrow> \<exists>w. getProp v k = Inr w"
  by (cases v) auto

lemma id_touch [simp]: "id_of (touch now p) = id_of p"
  and ws_touch [simp]: "ws (touch now p) = ws p"
  and data_touch [simp]: "data (touch now p) = data p"
  and location_touch [simp]: "location (touch now p) = location p"
  by (simp_all add: touch_def)

lemma message_decompose:
  "JSON_parse B raw = Some msg \<Longrightarrow> players_get s k = Some p \<Longrightarrow>
   handlePlayerMessage n B now now' k raw s =
     (case dispatch n B now' k msg (players_update k (touch now) s) of
        None \<Rightarrow> None
      | Some (Normal, s') \<Rightarrow> Some s'
      | Some (Throw, s') \<Rightarrow> sendToPlayer n k (error_msg ''Invalid message format'') s')"
  by (simp add: handlePlayerMessage_def)

lemma dispatch_move:
  "getProp msg (str ''type'') = Inr (JStr (str ''player_move'')) \<Longrightarrow>
   getProp msg (str ''data'') = Inr md \<Longrightarrow>
   dispatch n B now' k msg s = handlePlayerMove n B k md s"
  by (simp add: dispatch_def)

lemma dispatch_invalid:
  assumes "JSON_parse B raw = Some msg" and "refused B raw = Some Invalid_format"
  shows "dispatch n B now' k msg s = Some (Throw, s)"
proof (cases "getProp msg (str ''type'')")
  case (Inl e)
  then show ?thesis by (simp add: dispatch_def)
next
  case (Inr ty)
  with assms have "toString_throws ty"
    by (simp add: refused_def split: if_splits)
  with Inr show ?thesis by (simp add: dispatch_def)
qed

lemma dispatch_unknown:
  assumes "JSON_parse B raw = Some msg" and "refused B raw = Some Unknown_type"
  shows "dispatch n B now' k msg s =
     map_option (Pair Normal) (sendToPlayer n k (error_msg ''Unknown message type'') s)"
proof (cases "getProp msg (str ''type'')")
  case (Inl e)
  with assms show ?thesis by (simp add: refused_def)
next
  case (Inr ty)
  then have "msg \<noteq> JUndefined" "msg \<noteq> JNull" by auto
  then obtain d where d: "getProp msg (str ''data'') = Inr d" using getProp_Inr by blast
  from assms Inr have ty: "\<not> toString_throws ty" "\<not> known_type ty"
    by (simp_all add: refused_def split: if_splits)
  from ty(2) have "ty \<noteq> JStr (str ''player_join'')" "ty \<noteq> JStr (str ''player_leave'')"
    "ty \<noteq> JStr (str ''chat_message'')" "ty \<noteq> JStr (str ''player_move'')"
    unfolding known_type_def by blast+
  with Inr d ty(1) show ?thesis
    unfolding dispatch_def by (simp split: option.splits)
qed

lemma sendToPlayer_no_throw:
  "players_get s k = Some p \<Longrightarrow> \<not> send_throws (ws p) \<Longrightarrow>
   sendToPlayer n k m s = Some (deliver (if readyState (ws p) = OPEN then [(k, m)] else []) s)"
  by (simp add: sendToPlayer.simps deliver_def)

section \<open>Chat messages\<close>


lemma chat_decompose:
  assumes "players_get s k = Some p" "data p = Some d"
    "getProp messageData (str ''text'') = Inr (JStr t)" "trim t \<noteq> []"
    "\<not> toString_throws (nickname_of p)"
  shows "handleChatMessage n now k messageData s =
     map_option (Pair Normal)
       (broadcastToLocation n (location p) (chat_msg k p (substring0 200 (trim t)) now) (Some k) s)"
proof -
  from assms(4) have "t \<noteq> []" by (auto simp: trim_def)
  with assms show ?thesis
    by (simp add: handleChatMessage_def Let_def split: option.splits)
qed

lemma chat_dropped:
  assumes "players_get s k = Some p" "data p = Some d"
    "getProp messageData (str ''text'') = Inr v"
    "\<not> truthy v \<or> (\<exists>t. v = JStr t \<and> trim t = [])"
  shows "handleChatMessage n now k messageData s = Some (Normal, s)"
  using assms by (auto simp: handleChatMessage_def)

section \<open>Joining\<close>

lemma id_set_profile [simp]: "id_of (set_profile d p) = id_of p"
  and ws_set_profile [simp]: "ws (set_profile d p) = ws p"
  and location_set_profile [simp]: "location (set_profile d p) = location p"
  and data_set_profile [simp]: "data (set_profile d p) = Some d"
  by (simp_all add: set_profile_def)

lemma is_open_update:
  "(\<And>p. ws (f p) = ws p) \<Longrightarrow> is_open (players_update k f s) k' = is_open s k'"
  by (auto simp: is_open_def players_get_update split: option.splits)

lemma getPlayers_deliver [simp]:
  "getPlayersInLocation (deliver ms s) loc ex = getPlayersInLocation s loc ex"
  by (simp add: getPlayersInLocation.simps)

lemma recipients_deliver [simp]: "recipients (deliver ms s) loc ex = recipients s loc ex"
  by (simp add: recipients_def)

lemma wf_deliver [simp]: "wf_registry (deliver ms s) = wf_registry s"
  by (simp add: wf_registry_def)

lemma join_profile_id: "map_of (join_profile k pd now) (str ''id'') = Some (JStr k)"
  by (simp add: join_profile_def map_of_setProp)

lemma join_profile_joinTime:
  "map_of (join_profile k pd now) (str ''joinTime'') = Some (JNum (Fin (of_int now)))"
  by (simp add: join_profile_def map_of_setProp)

lemma join_profile_other:
  "key \<noteq> str ''id'' \<Longrightarrow> key \<noteq> str ''joinTime'' \<Longrightarrow>
   map_of (join_profile k pd now) key = map_of (spread pd) key"
  by (simp add: join_profile_def map_of_setProp)

lemma join_decompose:
  assumes "players_get s k = Some p"
    and "\<not> toString_throws (nickname_of (set_profile (join_profile k pd now) p))"
  shows "handlePlayerJoin n now k pd s =
     (case sendToPlayer n k
             (mk_msg ''player_list''
                (JArr (map profile_json (getPlayersInLocation s (location p) (Some k)))))
             (players_update k (set_profile (join_profile k pd now)) s) of
        None \<Rightarrow> None
      | Some s2 \<Rightarrow>
          map_option (Pair Normal)
            (broadcastToLocation n (location p)
               (mk_msg ''player_joined'' (JObj (join_profile k pd now))) (Some k) s2))"
  using assms
  by (simp add: handlePlayerJoin_def Let_def getPlayers_update_excl split: option.splits)

lemma join_throws:
  assumes "players_get s k = Some p"
    and "toString_throws (nickname_of (set_profile (join_profile k pd now) p))"
  shows "handlePlayerJoin n now k pd s =
           Some (Throw, players_update k (set_profile (join_profile k pd now)) s)"
  using assms by (simp add: handlePlayerJoin_def Let_def)

lemma join_general:
  assumes wf: "wf_registry s" and g: "players_get s k = Some p"
    and nick: "\<not> toString_throws (nickname_of (set_profile (join_profile k pd now) p))"
    and h: "handlePlayerJoin n now k pd s = Some (c, s')"
  shows "c = Normal \<and> evolves (players_update k (set_profile (join_profile k pd now)) s) s'
       \<and> (\<forall>e \<in> set (news s s').
             e = (k, mk_msg ''player_list''
                       (JArr (map profile_json (getPlayersInLocation s (location p) (Some k)))))
               \<and> is_open s k
             \<or> snd e = mk_msg ''player_joined'' (JObj (join_profile k pd now))
               \<and> rcpt s (location p) (Some k) (fst e)
             \<or> left_entry (players_update k (set_profile (join_profile k pd now)) s) e)"
proof -
  define s1 where "s1 = players_update k (set_profile (join_profile k pd now)) s"
  define list where "list = mk_msg ''player_list''
                       (JArr (map profile_json (getPlayersInLocation s (location p) (Some k))))"
  define joined where "joined = mk_msg ''player_joined'' (JObj (join_profile k pd now))"
  have wf1: "wf_registry s1" unfolding s1_def using wf by (simp add: wf_update)
  from h obtain s2 where
    a: "sendToPlayer n k list s1 = Some s2"
    and b: "broadcastToLocation n (location p) joined (Some k) s2 = Some s'"
    and c: "c = Normal"
    unfolding join_decompose [OF g nick] list_def joined_def s1_def
    by (auto split: option.splits)
  from core(1) [OF wf1 a] have ev1: "evolves s1 s2"
    and en1: "\<forall>e \<in> set (news s1 s2). e = (k, list) \<and> is_open s1 k \<or> left_entry s1 e"
    by blast+
  have wf2: "wf_registry s2" using wf1 ev1 by (rule evolves_wf)
  from core(3) [OF wf2 b] have ev2: "evolves s2 s'"
    and en2: "\<forall>e \<in> set (news s2 s').
                snd e = joined \<and> rcpt s2 (location p) (Some k) (fst e) \<or> left_entry s2 e"
    by blast+
  have o: "is_open s1 k = is_open s k" unfolding s1_def by (simp add: is_open_update)
  have r: "rcpt s2 (location p) (Some k) x \<Longrightarrow> rcpt s (location p) (Some k) x" for x
    using rcpt_mono [OF wf1 ev1, of "location p" "Some k" x]
    unfolding s1_def by (simp add: rcpt_update_excl)
  have "\<forall>e \<in> set (news s1 s2).
          e = (k, list) \<and> is_open s k
          \<or> snd e = joined \<and> rcpt s (location p) (Some k) (fst e) \<or> left_entry s1 e"
    using en1 o by blast
  moreover have "\<forall>e \<in> set (news s2 s').
          e = (k, list) \<and> is_open s k
          \<or> snd e = joined \<and> rcpt s (location p) (Some k) (fst e) \<or> left_entry s1 e"
    using en2 r left_entry_mono [OF wf1 ev1] by blast
  moreover have "news s s' = news s1 s2 @ news s2 s'"
    using news_trans [OF ev1 ev2] unfolding s1_def by simp
  ultimately have "\<forall>e \<in> set (news s s').
          e = (k, list) \<and> is_open s k
          \<or> snd e = joined \<and> rcpt s (location p) (Some k) (fst e) \<or> left_entry s1 e"
    by auto
  with c evolves_trans [OF ev1 ev2] show ?thesis
    unfolding s1_def list_def joined_def by blast
qed

lemma join_reliable:
  assumes wf: "wf_registry s" and g: "players_get s k = Some p"
    and nick: "\<not> toString_throws (nickname_of (set_profile (join_profile k pd now) p))"
    and rel: "reliable s"
  shows "handlePlayerJoin n now k pd s =
     Some (Normal,
       deliver ((if readyState (ws p) = OPEN
                 then [(k, mk_msg ''player_list''
                          (JArr (map profile_json (getPlayersInLocation s (location p) (Some k)))))]
                 else [])
                @ map (\<lambda>q. (id_of q, mk_msg ''player_joined'' (JObj (join_profile k pd now))))
                    (recipients s (location p) (Some k)))
         (players_update k (set_profile (join_profile k pd now)) s))"
proof -
  define s1 where "s1 = players_update k (set_profile (join_profile k pd now)) s"
  have wf1: "wf_registry s1" unfolding s1_def using wf by (simp add: wf_update)
  have rel1: "reliable s1" unfolding s1_def using rel by (simp add: reliable_update)
  have o: "is_open s1 k = (readyState (ws p) = OPEN)"
    unfolding s1_def using g by (simp add: is_open_update) (simp add: is_open_def)
  have rc: "recipients s1 (location p) (Some k) = recipients s (location p) (Some k)"
    unfolding s1_def by (rule recipients_update_excl)
  show ?thesis
    unfolding join_decompose [OF g nick] s1_def [symmetric]
    using sendToPlayer_reliable [OF rel1] broadcast_reliable wf1 rel1 o rc
    by simp
qed

section \<open>Messages in order with the registry\<close>

lemma active_update_other:
  "k' \<noteq> k \<Longrightarrow> active (players_update k f s) k' = active s k'"
  by (simp add: active_def players_get_update)

lemma rcpt_active: "rcpt s loc ex r \<Longrightarrow> active s r"
  by (auto simp: rcpt_def active_def)

lemma safe_mono: "wf_registry s \<Longrightarrow> evolves s s1 \<Longrightarrow> safe s1 e \<Longrightarrow> safe s e"
  unfolding safe_def by (meson evolves_active)

lemma actor_left [simp]: "actor (player_left_msg k p) = JStr k"
  by (simp add: actor_def player_left_msg_def field_def mk_msg_def payload_def)

lemma actor_moved [simp]: "actor (player_moved_msg k x y) = JStr k"
  by (simp add: actor_def player_moved_msg_def field_def mk_msg_def payload_def)

lemma actor_chat [simp]: "actor (chat_msg k p t now) = JStr k"
  by (simp add: actor_def chat_msg_def field_def mk_msg_def payload_def)

lemma actor_joined [simp]:
  "actor (mk_msg ''player_joined'' (JObj (join_profile k pd now))) = JStr k"
  using join_profile_id [of k pd now] by (simp add: actor_def field_def mk_msg_def payload_def)

lemma listed_other [simp]:
  "listed (player_left_msg k p) = []" "listed (player_moved_msg k x y) = []"
  "listed (chat_msg k p t now) = []" "listed (mk_msg ''player_joined'' d) = []"
  "listed (error_msg tx) = []" "listed (mk_msg ''connection_established'' d) = []"
  by (simp_all add: listed_def player_left_msg_def player_moved_msg_def chat_msg_def error_msg_def mk_msg_def)

lemma not_broadcast [simp]:
  "\<not> broadcast_type (error_msg t)" "\<not> broadcast_type (mk_msg ''connection_established'' d)"
  "\<not> broadcast_type (mk_msg ''player_list'' d)"
  by (simp_all add: broadcast_type_def error_msg_def mk_msg_def)

lemma safe_left: "left_entry s e \<Longrightarrow> safe s e"
  unfolding left_entry_def safe_def
  by (auto simp: active_def dest: rcpt_active)

lemma safe_reply [simp]:
  "safe s (k, error_msg t)" "safe s (k, mk_msg ''connection_established'' d)"
  by (simp_all add: safe_def)

lemma safe_bcast:
  "rcpt s loc ex (fst e) \<Longrightarrow> active s k \<Longrightarrow> actor (snd e) = JStr k \<Longrightarrow> listed (snd e) = [] \<Longrightarrow>
   safe s e"
  by (auto simp: safe_def dest: rcpt_active)

lemma safe_list:
  assumes "wf_registry s" and "\<forall>(k, p) \<in> set (players s). profile_ok k p"
  shows "safe s (r, mk_msg ''player_list'' (JArr (map profile_json (getPlayersInLocation s loc ex))))"
proof -
  have "\<exists>k. field (profile_json q) ''id'' = JStr k \<and> active s k"
    if "q \<in> set (getPlayersInLocation s loc ex)" for q
  proof -
    from that obtain k d where kq: "(k, q) \<in> set (players s)" and d: "data q = Some d"
      by (auto simp: in_getPlayersInLocation)
    from assms(2) kq d have "map_of d (str ''id'') = Some (JStr k)"
      by (auto simp: profile_ok_def)
    moreover have "active s k" using wf_get [OF assms(1) kq] d by (simp add: active_def)
    ultimately show ?thesis using d by (auto simp: field_def profile_json_def)
  qed
  then show ?thesis by (simp add: safe_def listed_def broadcast_type_def mk_msg_def payload_def)
qed

section \<open>The invariant and the shape of a step\<close>

lemma players_update_ident [simp]: "players_update k (\<lambda>p. p) s = s"
proof -
  have "map (\<lambda>(k', p). if k' = k then (k', p) else (k', p)) xs = xs"
    for xs :: "(pid \<times> player) list"
    by (induction xs) auto
  then show ?thesis by (simp add: players_update_def)
qed

lemma players_update_twice:
  "players_update k g (players_update k f s) = players_update k (\<lambda>p. g (f p)) s"
  by (simp add: players_update_def comp_def case_prod_unfold)

lemma good_for_ident [simp]: "good_for k (\<lambda>p. p)"
  by (simp add: good_for_def)

lemma good_for_touch [simp]: "good_for k (touch now)"
  by (simp add: good_for_def profile_ok_def)

lemma good_for_set_profile [simp]: "good_for k (set_profile (join_profile k pd now))"
  using join_profile_id [of k pd now] by (simp add: good_for_def profile_ok_def)

lemma good_for_set_position [simp]: "good_for k (set_position x y)"
  by (auto simp: good_for_def profile_ok_def set_position_def map_of_setProp)

lemma good_for_comp: "good_for k f \<Longrightarrow> good_for k g \<Longrightarrow> good_for k (\<lambda>p. g (f p))"
  by (simp add: good_for_def)

lemma registry_inv_wf: "registry_inv s \<Longrightarrow> wf_registry s"
  by (simp add: registry_inv_def)

lemma registry_inv_profiles: "registry_inv s \<Longrightarrow> \<forall>(k, p) \<in> set (players s). profile_ok k p"
  by (auto simp: registry_inv_def)

lemma registry_inv_evolves: "registry_inv s \<Longrightarrow> evolves s s' \<Longrightarrow> registry_inv s'"
proof -
  assume i: "registry_inv s" and e: "evolves s s'"
  from e obtain P where "players s' = filter P (players s)" unfolding evolves_def by blast
  then have "set (players s') \<subseteq> set (players s)" by auto
  with i evolves_wf [OF registry_inv_wf [OF i] e] show ?thesis unfolding registry_inv_def by blast
qed

lemma registry_inv_update: "good_for k f \<Longrightarrow> registry_inv s \<Longrightarrow> registry_inv (players_update k f s)"
proof -
  assume g: "good_for k f" and i: "registry_inv s"
  have "wf_registry (players_update k f s)"
    using g i by (simp add: wf_update good_for_def registry_inv_def)
  moreover have "\<forall>(k', p) \<in> set (players (players_update k f s)).
                   location p = str ''Park'' \<and> profile_ok k' p"
    using g i unfolding registry_inv_def good_for_def players_update_def
    by (auto split: if_splits)
  ultimately show ?thesis unfolding registry_inv_def by blast
qed

lemma shape_inv: "shape k j s s' \<Longrightarrow> registry_inv s \<Longrightarrow> registry_inv s'"
  unfolding shape_def using registry_inv_update registry_inv_evolves by blast

lemma shape_plain:
  "evolves s s' \<Longrightarrow> \<forall>e \<in> set (news s s'). safe s e \<Longrightarrow> shape k j s s'"
  unfolding shape_def
  by (rule exI [where x = "\<lambda>p. p"]) simp

lemma shape_refl [simp]: "shape k j s s"
  by (rule shape_plain) simp_all

lemma shape_updated:
  "good_for k f \<Longrightarrow> j \<or> (\<forall>p. data p = None \<longrightarrow> data (f p) = None) \<Longrightarrow>
   evolves (players_update k f s) s' \<Longrightarrow>
   \<forall>e \<in> set (news s s'). safe (players_update k f s) e \<Longrightarrow> shape k j s s'"
  unfolding shape_def by blast

lemma shape_then:
  assumes i: "registry_inv s" and sh: "shape k j s s1" and ev: "evolves s1 s2"
    and en: "\<forall>e \<in> set (news s1 s2). safe s1 e"
  shows "shape k j s s2"
proof -
  from sh obtain f where f: "good_for k f" "j \<or> (\<forall>p. data p = None \<longrightarrow> data (f p) = None)"
    and ev0: "evolves (players_update k f s) s1"
    and en0: "\<forall>e \<in> set (news s s1). safe (players_update k f s) e"
    unfolding shape_def by blast
  have wf0: "wf_registry (players_update k f s)" using registry_inv_update [OF f(1) i] by (rule registry_inv_wf)
  have "news (players_update k f s) s2 = news (players_update k f s) s1 @ news s1 s2"
    using ev0 ev by (rule news_trans)
  then have n: "news s s2 = news s s1 @ news s1 s2" by simp
  have "\<forall>e \<in> set (news s1 s2). safe (players_update k f s) e"
    using en safe_mono [OF wf0 ev0] by blast
  with en0 n have "\<forall>e \<in> set (news s s2). safe (players_update k f s) e" by auto
  with f evolves_trans [OF ev0 ev] show ?thesis unfolding shape_def by blast
qed

lemma shape_after_touch:
  assumes "shape k j (players_update k (touch now) s) s'"
  shows "shape k j s s'"
proof -
  from assms obtain f where f: "good_for k f" "j \<or> (\<forall>p. data p = None \<longrightarrow> data (f p) = None)"
    and ev: "evolves (players_update k f (players_update k (touch now) s)) s'"
    and en: "\<forall>e \<in> set (news (players_update k (touch now) s) s').
               safe (players_update k f (players_update k (touch now) s)) e"
    unfolding shape_def by blast
  have "good_for k (\<lambda>p. f (touch now p))" using good_for_touch f(1) by (rule good_for_comp)
  moreover have "j \<or> (\<forall>p. data p = None \<longrightarrow> data (f (touch now p)) = None)"
    using f(2) by auto
  ultimately show ?thesis
    using ev en unfolding shape_def players_update_twice news_update by blast
qed

lemma send_shape:
  assumes i: "registry_inv s" and h: "sendToPlayer n k m s = Some s'" and m: "safe s (k, m)"
  shows "shape k' j s s'"
proof (rule shape_plain)
  note c = core(1) [OF registry_inv_wf [OF i] h]
  from c show "evolves s s'" by (rule conjunct1)
  show "\<forall>e \<in> set (news s s'). safe s e"
  proof
    fix e assume "e \<in> set (news s s')"
    with c have "e = (k, m) \<and> is_open s k \<or> left_entry s e" by simp
    then show "safe s e"
    proof
      assume "e = (k, m) \<and> is_open s k"
      with m show ?thesis by simp
    next
      assume "left_entry s e"
      then show ?thesis by (rule safe_left)
    qed
  qed
qed

lemma disconnect_shape:
  assumes i: "registry_inv s" and h: "handlePlayerDisconnect n k s = Some s'"
  shows "shape k' j s s'"
proof (rule shape_plain)
  note c = core(2) [OF registry_inv_wf [OF i] h]
  from c show "evolves s s'" by (rule conjunct1)
  from c have "\<forall>e \<in> set (news s s'). left_entry s e" by simp
  then show "\<forall>e \<in> set (news s s'). safe s e" by (simp add: safe_left)
qed

lemma bcast_safe:
  assumes wf: "wf_registry s" and h: "broadcastToLocation n loc m (Some k) s = Some s'"
    and a: "active s k" "actor m = JStr k" "listed m = []"
  shows "evolves s s' \<and> (\<forall>e \<in> set (news s s'). safe s e)"
proof -
  note c = core(3) [OF wf h]
  from c have ev: "evolves s s'" by (rule conjunct1)
  from c have en: "\<forall>e \<in> set (news s s'). snd e = m \<and> rcpt s loc (Some k) (fst e) \<or> left_entry s e"
    by (rule conjunct2)
  have "safe s e" if "e \<in> set (news s s')" for e
  proof -
    from en that consider "snd e = m \<and> rcpt s loc (Some k) (fst e)" | "left_entry s e" by blast
    then show ?thesis
    proof cases
      case 1
      then show ?thesis
        using a by (intro safe_bcast [where k = k and loc = loc and ex = "Some k"]) simp_all
    next
      case 2
      then show ?thesis by (rule safe_left)
    qed
  qed
  with ev show ?thesis by blast
qed

lemma active_get: "players_get s k = Some p \<Longrightarrow> data p = Some d \<Longrightarrow> active s k"
  by (simp add: active_def)

lemma leave_shape:
  assumes i: "registry_inv s" and h: "handlePlayerLeave n k s = Some (c, s')"
  shows "shape k j s s'"
proof (cases "players_get s k")
  case None
  with h show ?thesis by (simp add: handlePlayerLeave_def)
next
  case (Some p)
  show ?thesis
  proof (cases "data p")
    case None
    with Some h show ?thesis by (simp add: handlePlayerLeave_def)
  next
    case d: (Some d)
    show ?thesis
    proof (cases "toString_throws (nickname_of p)")
      case True
      with Some d h show ?thesis by (simp add: handlePlayerLeave_def)
    next
      case False
      with Some d h obtain s1 where
        b: "broadcastToLocation n (location p) (player_left_msg k p) (Some k) s = Some s1"
        and s': "s' = players_delete k s1"
        by (auto simp: handlePlayerLeave_def split: option.splits)
      from bcast_safe [OF registry_inv_wf [OF i] b active_get [OF Some d]]
      have ev: "evolves s s1" and en: "\<forall>e \<in> set (news s s1). safe s e" by simp_all
      have "news s s' = news s s1" using news_trans [OF ev, of s'] s' by simp
      with en evolves_trans [OF ev, of s'] s' show ?thesis by (intro shape_plain) simp_all
    qed
  qed
qed

lemma chat_throws:
  assumes "players_get s k = Some p" "data p = Some d"
    "getProp md (str ''text'') = Inr v" "truthy v"
    "(\<forall>t. v \<noteq> JStr t) \<or> (\<exists>t. v = JStr t \<and> trim t \<noteq> [] \<and> toString_throws (nickname_of p))"
  shows "handleChatMessage n now k md s = Some (Throw, s)"
  using assms by (cases v) (simp_all add: handleChatMessage_def Let_def)

lemma chat_cases:
  assumes "handleChatMessage n now k md s = Some (c, s')"
  shows "s' = s \<or>
     (\<exists>p d t. players_get s k = Some p \<and> data p = Some d \<and>
        broadcastToLocation n (location p) (chat_msg k p (substring0 200 (trim t)) now)
          (Some k) s = Some s')"
proof (cases "players_get s k")
  case None
  with assms show ?thesis by (simp add: handleChatMessage_def)
next
  case (Some p)
  show ?thesis
  proof (cases "data p")
    case None
    with Some assms show ?thesis by (simp add: handleChatMessage_def)
  next
    case d: (Some d)
    show ?thesis
    proof (cases "getProp md (str ''text'')")
      case (Inl e)
      with Some d assms show ?thesis by (simp add: handleChatMessage_def)
    next
      case (Inr v)
      consider (dropped) "\<not> truthy v \<or> (\<exists>t. v = JStr t \<and> trim t = [])"
        | (thrown) "truthy v" "(\<forall>t. v \<noteq> JStr t) \<or>
             (\<exists>t. v = JStr t \<and> trim t \<noteq> [] \<and> toString_throws (nickname_of p))"
        | (sent) t where "v = JStr t" "trim t \<noteq> []" "\<not> toString_throws (nickname_of p)"
        by blast
      then show ?thesis
      proof cases
        case dropped
        from chat_dropped [OF Some d Inr dropped, of n now] assms show ?thesis by simp
      next
        case thrown
        from chat_throws [OF Some d Inr thrown, of n now] assms show ?thesis by simp
      next
        case sent
        from Inr sent(1) have tx: "getProp md (str ''text'') = Inr (JStr t)" by simp
        from assms have "broadcastToLocation n (location p)
            (chat_msg k p (substring0 200 (trim t)) now) (Some k) s = Some s'"
          unfolding chat_decompose [OF Some d tx sent(2,3)] by (simp add: map_option_case split: option.splits)
        with Some d show ?thesis by blast
      qed
    qed
  qed
qed

lemma chat_shape:
  assumes i: "registry_inv s" and h: "handleChatMessage n now k md s = Some (c, s')"
  shows "shape k j s s'"
proof (cases "s' = s")
  case True
  then show ?thesis by simp
next
  case False
  with chat_cases [OF h] obtain p d t where g: "players_get s k = Some p" and d: "data p = Some d"
    and b: "broadcastToLocation n (location p) (chat_msg k p (substring0 200 (trim t)) now)
              (Some k) s = Some s'"
    by blast
  from bcast_safe [OF registry_inv_wf [OF i] b active_get [OF g d]] show ?thesis
    by (intro shape_plain) simp_all
qed

lemma move_cases:
  assumes "handlePlayerMove n B k md s = Some (c, s')"
  shows "s' = s \<or>
     (\<exists>p d x y. players_get s k = Some p \<and> data p = Some d \<and>
        broadcastToLocation n (location p) (player_moved_msg k x y) (Some k)
          (players_update k (set_position x y) s) = Some s')"
proof (cases "players_get s k")
  case None
  with assms show ?thesis by (simp add: handlePlayerMove_def)
next
  case (Some p)
  show ?thesis
  proof (cases "data p")
    case None
    with Some assms show ?thesis by (simp add: handlePlayerMove_def)
  next
    case d: (Some d)
    show ?thesis
    proof (cases "getProp md (str ''x'')")
      case (Inl e)
      with Some d assms show ?thesis by (simp add: handlePlayerMove_def)
    next
      case vx: (Inr vx)
      show ?thesis
      proof (cases "call_parseFloat B vx")
        case (Inl e)
        with Some d vx assms show ?thesis by (simp add: handlePlayerMove_def)
      next
        case fx: (Inr fx)
        show ?thesis
        proof (cases "getProp md (str ''y'')")
          case (Inl e)
          with Some d vx fx assms show ?thesis by (simp add: handlePlayerMove_def)
        next
          case vy: (Inr vy)
          show ?thesis
          proof (cases "call_parseFloat B vy")
            case (Inl e)
            with Some d vx fx vy assms show ?thesis by (simp add: handlePlayerMove_def)
          next
            case fy: (Inr fy)
            from assms show ?thesis
              unfolding move_decompose [OF Some d vx fx vy fy] using Some d by auto
          qed
        qed
      qed
    qed
  qed
qed

lemma move_shape:
  assumes i: "registry_inv s" and h: "handlePlayerMove n B k md s = Some (c, s')"
  shows "shape k j s s'"
proof (cases "s' = s")
  case True
  then show ?thesis by simp
next
  case False
  with move_cases [OF h] obtain p d x y where g: "players_get s k = Some p"
    and d: "data p = Some d"
    and b: "broadcastToLocation n (location p) (player_moved_msg k x y) (Some k)
              (players_update k (set_position x y) s) = Some s'"
    by blast
  define s1 where "s1 = players_update k (set_position x y) s"
  have wf1: "wf_registry s1" unfolding s1_def using registry_inv_wf [OF i] by (simp add: wf_update)
  have a1: "active s1 k"
    unfolding s1_def using g d by (simp add: active_def players_get_update set_position_def)
  from bcast_safe [OF wf1 b [folded s1_def] a1]
  have "evolves s1 s'" "\<forall>e \<in> set (news s s'). safe s1 e"
    unfolding s1_def by simp_all
  then show ?thesis
    unfolding s1_def
    by (intro shape_updated [where f = "set_position x y"]) (simp_all add: set_position_def)
qed

lemma news_to_update [simp]: "news s (players_update k f s) = []"
  by (simp add: news_def)

lemma join_shape:
  assumes i: "registry_inv s" and h: "handlePlayerJoin n now k pd s = Some (c, s')"
  shows "shape k True s s'"
proof (cases "players_get s k")
  case None
  with h show ?thesis by (simp add: handlePlayerJoin_def)
next
  case (Some p)
  define prof where "prof = join_profile k pd now"
  define s1 where "s1 = players_update k (set_profile prof) s"
  have g: "good_for k (set_profile prof)" unfolding prof_def by simp
  have i1: "registry_inv s1" unfolding s1_def using g i by (rule registry_inv_update)
  have a1: "active s1 k"
    unfolding s1_def using Some by (simp add: active_def players_get_update)
  show ?thesis
  proof (cases "toString_throws (nickname_of (set_profile prof p))")
    case True
    from h have "s' = s1"
      unfolding join_throws [OF Some True [unfolded prof_def]] s1_def prof_def by simp
    then show ?thesis
      unfolding s1_def using g by (intro shape_updated [where f = "set_profile prof"]) simp_all
  next
    case False
    note j = join_general [OF registry_inv_wf [OF i] Some False [unfolded prof_def] h]
    from j have ev: "evolves s1 s'" unfolding s1_def prof_def by simp
    have "safe s1 e" if e: "e \<in> set (news s s')" for e
    proof -
      from j e have "e = (k, mk_msg ''player_list''
                       (JArr (map profile_json (getPlayersInLocation s (location p) (Some k)))))
               \<and> is_open s k
             \<or> snd e = mk_msg ''player_joined'' (JObj prof)
               \<and> rcpt s (location p) (Some k) (fst e)
             \<or> left_entry s1 e"
        unfolding s1_def prof_def by simp
      then consider
          (list) "e = (k, mk_msg ''player_list''
                       (JArr (map profile_json (getPlayersInLocation s (location p) (Some k)))))"
        | (joined) "snd e = mk_msg ''player_joined'' (JObj prof)"
                   "rcpt s (location p) (Some k) (fst e)"
        | (left) "left_entry s1 e"
        by blast
      then show ?thesis
      proof cases
        case list
        have "getPlayersInLocation s (location p) (Some k) =
              getPlayersInLocation s1 (location p) (Some k)"
          unfolding s1_def by (simp add: getPlayers_update_excl)
        with list safe_list [OF registry_inv_wf [OF i1] registry_inv_profiles [OF i1], of k "location p" "Some k"]
        show ?thesis by simp
      next
        case joined
        from joined(2) have "rcpt s1 (location p) (Some k) (fst e)"
          unfolding s1_def by (simp add: rcpt_update_excl)
        then show ?thesis
          using a1 joined(1) unfolding prof_def
          by (intro safe_bcast [where k = k and loc = "location p" and ex = "Some k"]) simp_all
      next
        case left
        then show ?thesis by (rule safe_left)
      qed
    qed
    then show ?thesis
      using ev g unfolding s1_def
      by (intro shape_updated [where f = "set_profile prof"]) simp_all
  qed
qed

lemma shape_weaken: "shape k j s s' \<Longrightarrow> (j \<Longrightarrow> j') \<Longrightarrow> shape k j' s s'"
  unfolding shape_def by blast

lemma dispatch_shape:
  assumes i: "registry_inv s" and h: "dispatch n B now' k msg s = Some (c, s')"
  shows "shape k (getProp msg (str ''type'') = Inr (JStr (str ''player_join''))) s s'"
proof (cases "getProp msg (str ''type'')")
  case (Inl e)
  with h show ?thesis by (simp add: dispatch_def)
next
  case (Inr t)
  show ?thesis
  proof (cases "toString_throws t")
    case True
    with Inr h show ?thesis by (simp add: dispatch_def)
  next
    case False
    show ?thesis
    proof (cases "getProp msg (str ''data'')")
      case (Inl e)
      with Inr False h show ?thesis by (simp add: dispatch_def)
    next
      case d: (Inr d)
      consider (join) "t = JStr (str ''player_join'')"
        | (leave) "t = JStr (str ''player_leave'')"
        | (chat) "t = JStr (str ''chat_message'')"
        | (move) "t = JStr (str ''player_move'')"
        | (other) "t \<noteq> JStr (str ''player_join'')" "t \<noteq> JStr (str ''player_leave'')"
                  "t \<noteq> JStr (str ''chat_message'')" "t \<noteq> JStr (str ''player_move'')"
        by blast
      then show ?thesis
      proof cases
        case join
        with Inr False d h have "handlePlayerJoin n now' k d s = Some (c, s')"
          by (simp add: dispatch_def)
        from join_shape [OF i this] show ?thesis by (rule shape_weaken) (use Inr join in simp)
      next
        case leave
        with Inr False d h have "handlePlayerLeave n k s = Some (c, s')"
          by (simp add: dispatch_def)
        then show ?thesis by (rule leave_shape [OF i])
      next
        case chat
        with Inr False d h have "handleChatMessage n now' k d s = Some (c, s')"
          by (simp add: dispatch_def)
        then show ?thesis by (rule chat_shape [OF i])
      next
        case move
        with Inr False d h have "handlePlayerMove n B k d s = Some (c, s')"
          by (simp add: dispatch_def)
        then show ?thesis by (rule move_shape [OF i])
      next
        case other
        with Inr False d h have "sendToPlayer n k (error_msg ''Unknown message type'') s = Some s'"
          by (auto simp: dispatch_def split: option.splits)
        then show ?thesis by (rule send_shape [OF i]) simp
      qed
    qed
  qed
qed

lemma message_shape:
  assumes i: "registry_inv s" and h: "handlePlayerMessage n B now now' k raw s = Some s'"
  shows "shape k (is_join B raw) s s'"
proof (cases "JSON_parse B raw")
  case None
  with h have "sendToPlayer n k (error_msg ''Invalid message format'') s = Some s'"
    by (simp add: handlePlayerMessage_def)
  then show ?thesis by (rule send_shape [OF i]) simp
next
  case (Some msg)
  show ?thesis
  proof (cases "players_get s k")
    case None
    with Some h show ?thesis by (simp add: handlePlayerMessage_def)
  next
    case p: (Some p)
    define s0 where "s0 = players_update k (touch now) s"
    have i0: "registry_inv s0" unfolding s0_def using good_for_touch i by (rule registry_inv_update)
    have j: "is_join B raw = (getProp msg (str ''type'') = Inr (JStr (str ''player_join'')))"
      using Some by (simp add: is_join_def)
    from h obtain c s2 where d: "dispatch n B now' k msg s0 = Some (c, s2)"
      and r: "c = Normal \<and> s' = s2 \<or>
              c = Throw \<and> sendToPlayer n k (error_msg ''Invalid message format'') s2 = Some s'"
      unfolding message_decompose [OF Some p] s0_def
      by (auto split: option.splits completion.splits)
    have sh: "shape k (is_join B raw) s0 s2" unfolding j using i0 d by (rule dispatch_shape)
    have "shape k (is_join B raw) s0 s'"
    proof (cases c)
      case Normal
      with r sh show ?thesis by simp
    next
      case Throw
      with r have e: "sendToPlayer n k (error_msg ''Invalid message format'') s2 = Some s'" by simp
      have i2: "registry_inv s2" using sh i0 by (rule shape_inv)
      note c = core(1) [OF registry_inv_wf [OF i2] e]
      from c have ev: "evolves s2 s'" by (rule conjunct1)
      have "\<forall>x \<in> set (news s2 s'). safe s2 x"
      proof
        fix x assume "x \<in> set (news s2 s')"
        with c have "x = (k, error_msg ''Invalid message format'') \<and> is_open s2 k
                     \<or> left_entry s2 x" by simp
        then show "safe s2 x"
        proof
          assume "x = (k, error_msg ''Invalid message format'') \<and> is_open s2 k"
          then show ?thesis by simp
        next
          assume "left_entry s2 x"
          then show ?thesis by (rule safe_left)
        qed
      qed
      with i0 sh ev show ?thesis by (rule shape_then)
    qed
    then show ?thesis unfolding s0_def by (rule shape_after_touch)
  qed
qed

section \<open>The sweep, connections and reachable states\<close>

lemma cleanup_loop_general:
  "wf_registry s \<Longrightarrow> cleanup_loop n now ks s = Some s' \<Longrightarrow>
     evolves s s' \<and> (\<forall>e \<in> set (news s s'). left_entry s e) \<and>
     (\<forall>k \<in> set ks. \<forall>p. players_get s' k = Some p \<longrightarrow> \<not> stale now p)"
proof (induction ks arbitrary: s)
  case Nil
  then show ?case by simp
next
  case (Cons k ks)
  show ?case
  proof (cases "players_get s k")
    case None
    with Cons.prems have l: "cleanup_loop n now ks s = Some s'" by simp
    note ih = Cons.IH [OF Cons.prems(1) l]
    from ih have ev: "evolves s s'" by (rule conjunct1)
    have "players_get s' k = None" using ev None by (rule evolves_get_None)
    with ih show ?thesis by simp
  next
    case (Some p)
    show ?thesis
    proof (cases "stale now p")
      case False
      with Some Cons.prems have l: "cleanup_loop n now ks s = Some s'" by simp
      note ih = Cons.IH [OF Cons.prems(1) l]
      from ih have ev: "evolves s s'" by (rule conjunct1)
      have "\<not> stale now p'" if "players_get s' k = Some p'" for p'
        using evolves_get [OF Cons.prems(1) ev that] Some False by simp
      with ih show ?thesis by simp
    next
      case True
      with Some Cons.prems obtain s1 where
        d: "handlePlayerDisconnect n k s = Some s1" and l: "cleanup_loop n now ks s1 = Some s'"
        by (auto split: option.splits)
      note c = core(2) [OF Cons.prems(1) d]
      from c have ev1: "evolves s s1" by (rule conjunct1)
      from c have g1: "players_get s1 k = None" by simp
      from c have en1: "\<forall>e \<in> set (news s s1). left_entry s e" by simp
      have wf1: "wf_registry s1" using Cons.prems(1) ev1 by (rule evolves_wf)
      note ih = Cons.IH [OF wf1 l]
      from ih have ev2: "evolves s1 s'" by (rule conjunct1)
      from ih have en2: "\<forall>e \<in> set (news s1 s'). left_entry s1 e" by simp
      from ih have st: "\<forall>k \<in> set ks. \<forall>p. players_get s' k = Some p \<longrightarrow> \<not> stale now p" by simp
      have "players_get s' k = None" using ev2 g1 by (rule evolves_get_None)
      moreover have "\<forall>e \<in> set (news s1 s'). left_entry s e"
        using en2 left_entry_mono [OF Cons.prems(1) ev1] by blast
      ultimately show ?thesis
        using evolves_trans [OF ev1 ev2] news_trans [OF ev1 ev2] en1 st by auto
    qed
  qed
qed

lemma evolves_subset: "evolves s s' \<Longrightarrow> set (players s') \<subseteq> set (players s)"
  unfolding evolves_def by auto

lemma cleanup_general:
  assumes wf: "wf_registry s" and h: "cleanupDisconnectedPlayers n now s = Some s'"
  shows "evolves s s' \<and> (\<forall>e \<in> set (news s s'). left_entry s e) \<and>
         (\<forall>(k, p) \<in> set (players s'). \<not> stale now p)"
proof -
  note c = cleanup_loop_general [OF wf h [unfolded cleanupDisconnectedPlayers_def]]
  from c have ev: "evolves s s'" by (rule conjunct1)
  have wf': "wf_registry s'" using wf ev by (rule evolves_wf)
  have "\<not> stale now p" if kp: "(k, p) \<in> set (players s')" for k p
  proof -
    from kp evolves_subset [OF ev] have "k \<in> set (map fst (players s))" by force
    moreover have "players_get s' k = Some p" using wf_get [OF wf' kp] by simp
    ultimately show ?thesis using c by blast
  qed
  with c show ?thesis by auto
qed

lemma sweep_shape:
  assumes i: "registry_inv s" and h: "cleanupDisconnectedPlayers n now s = Some s'"
  shows "shape k j s s'"
proof (rule shape_plain)
  note c = cleanup_general [OF registry_inv_wf [OF i] h]
  from c show "evolves s s'" by (rule conjunct1)
  from c have "\<forall>e \<in> set (news s s'). left_entry s e" by simp
  then show "\<forall>e \<in> set (news s s'). safe s e" by (simp add: safe_left)
qed

lemma map_of_assoc_set: "map_of (assoc_set xs k v) = (map_of xs)(k \<mapsto> v)"
  by (induction xs) auto

lemma set_assoc_set: "set (assoc_set xs k v) \<subseteq> insert (k, v) (set xs)"
  by (induction xs) (auto split: if_splits)

lemma keys_assoc_set: "set (map fst (assoc_set xs k v)) = insert k (set (map fst xs))"
proof -
  have "dom (map_of (assoc_set xs k v)) = insert k (dom (map_of xs))"
    by (simp add: map_of_assoc_set)
  then show ?thesis by (simp add: dom_map_of_conv_image_fst)
qed

lemma distinct_assoc_set:
  "distinct (map fst xs) \<Longrightarrow> distinct (map fst (assoc_set xs k v))"
proof (induction xs)
  case Nil
  then show ?case by simp
next
  case (Cons x xs)
  obtain k' v' where x: "x = (k', v')" by (cases x)
  show ?case
  proof (cases "k' = k")
    case True
    with Cons.prems x show ?thesis by simp
  next
    case False
    have "k' \<notin> set (map fst (assoc_set xs k v))"
      using Cons.prems x False unfolding keys_assoc_set by simp
    with Cons x False show ?thesis by simp
  qed
qed

lemma players_get_set:
  "players_get (players_set k p s) x = (if x = k then Some p else players_get s x)"
  by (simp add: players_get_def players_set_def map_of_assoc_set)

lemma registry_inv_set: "registry_inv s \<Longrightarrow> registry_inv (players_set k (new_player k w clientIP now) s)"
proof -
  assume i: "registry_inv s"
  have d: "distinct (map fst (players (players_set k (new_player k w clientIP now) s)))"
    using i by (simp add: players_set_def distinct_assoc_set registry_inv_def wf_registry_def)
  have "id_of p = k' \<and> location p = str ''Park'' \<and> profile_ok k' p"
    if "(k', p) \<in> set (players (players_set k (new_player k w clientIP now) s))" for k' p
  proof -
    from that set_assoc_set [of "players s" k "new_player k w clientIP now"]
    have "(k', p) = (k, new_player k w clientIP now) \<or> (k', p) \<in> set (players s)"
      by (auto simp: players_set_def)
    then show ?thesis
    proof
      assume "(k', p) = (k, new_player k w clientIP now)"
      then show ?thesis by (simp add: new_player_def profile_ok_def)
    next
      assume "(k', p) \<in> set (players s)"
      with i show ?thesis unfolding registry_inv_def wf_registry_def by blast
    qed
  qed
  with d show ?thesis unfolding registry_inv_def wf_registry_def by blast
qed

lemma shape_mid:
  assumes i: "registry_inv s" and sh: "shape k j s s'"
  shows "\<exists>s1. registry_inv s1 \<and> sent s1 = sent s \<and> (\<forall>x. active s1 x \<longrightarrow> active s x \<or> x = k \<and> j) \<and>
              evolves s1 s' \<and> (\<forall>e \<in> set (news s s'). safe s1 e)"
proof -
  from sh obtain f where f: "good_for k f" "j \<or> (\<forall>p. data p = None \<longrightarrow> data (f p) = None)"
    and ev: "evolves (players_update k f s) s'"
    and en: "\<forall>e \<in> set (news s s'). safe (players_update k f s) e"
    unfolding shape_def by blast
  have "active s x \<or> x = k \<and> j" if a: "active (players_update k f s) x" for x
  proof (cases "x = k")
    case False
    with a show ?thesis by (simp add: active_update_other)
  next
    case True
    with a f(2) show ?thesis
      by (auto simp: active_def players_get_update split: option.splits)
  qed
  with registry_inv_update [OF f(1) i] ev en show ?thesis
    by (intro exI [where x = "players_update k f s"]) simp
qed

lemma step_general:
  assumes i: "registry_inv s" and h: "step n B e s = Some s'"
  shows "\<exists>s1. registry_inv s1 \<and> sent s1 = sent s \<and> (\<forall>x. active s1 x \<longrightarrow> active s x \<or> joins B e x) \<and>
              evolves s1 s' \<and> (\<forall>e' \<in> set (news s s'). safe s1 e')"
proof (cases e)
  case (Connection k w clientIP now)
  define s1 where "s1 = players_set k (new_player k w clientIP now) s"
  have i1: "registry_inv s1" unfolding s1_def using i by (rule registry_inv_set)
  have st: "sent s1 = sent s" by (simp add: s1_def players_set_def)
  from h Connection have sd: "sendToPlayer n k
       (mk_msg ''connection_established'' (JObj [(str ''playerId'', JStr k)])) s1 = Some s'"
    by (simp add: handleNewConnection_def s1_def)
  note c = core(1) [OF registry_inv_wf [OF i1] sd]
  from c have ev: "evolves s1 s'" by (rule conjunct1)
  have "news s s' = news s1 s'" using st by (simp add: news_def)
  moreover have "\<forall>x \<in> set (news s1 s'). safe s1 x"
  proof
    fix x assume "x \<in> set (news s1 s')"
    with c have "x = (k, mk_msg ''connection_established'' (JObj [(str ''playerId'', JStr k)]))
                   \<and> is_open s1 k \<or> left_entry s1 x" by simp
    then show "safe s1 x"
    proof
      assume "x = (k, mk_msg ''connection_established'' (JObj [(str ''playerId'', JStr k)]))
                \<and> is_open s1 k"
      then show ?thesis by simp
    next
      assume "left_entry s1 x"
      then show ?thesis by (rule safe_left)
    qed
  qed
  moreover have "active s x" if "active s1 x" for x
    using that unfolding s1_def
    by (auto simp: active_def players_get_set new_player_def split: if_splits)
  ultimately show ?thesis using i1 st ev by (intro exI [where x = s1]) simp
next
  case (Message k raw now now')
  with h have "handlePlayerMessage n B now now' k raw s = Some s'" by simp
  from shape_mid [OF i message_shape [OF i this]] show ?thesis
    by (auto simp: joins_def Message)
next
  case (Close k)
  with h have "handlePlayerDisconnect n k s = Some s'" by simp
  from shape_mid [OF i disconnect_shape [OF i this, of k False]] show ?thesis by auto
next
  case (Error k)
  with h have "handlePlayerDisconnect n k s = Some s'" by simp
  from shape_mid [OF i disconnect_shape [OF i this, of k False]] show ?thesis by auto
next
  case (Sweep now)
  with h have "cleanupDisconnectedPlayers n now s = Some s'" by simp
  from shape_mid [OF i sweep_shape [OF i this, of undefined False]] show ?thesis by auto
next
  case Stats
  with h have "s' = s" by simp
  with i show ?thesis by (intro exI [where x = s]) simp
next
  case (Transport k w)
  with h have s': "s' = players_update k (set_ws w) s" by simp
  have "good_for k (set_ws w)" by (simp add: good_for_def set_ws_def profile_ok_def)
  then have "registry_inv s'" unfolding s' using i by (rule registry_inv_update)
  moreover have "active s x" if "active s' x" for x
    using that unfolding s'
    by (auto simp: active_def players_get_update set_ws_def split: option.splits if_splits)
  ultimately show ?thesis unfolding s' by (intro exI [where x = "players_update k (set_ws w) s"]) simp
qed

lemma step_inv: "registry_inv s \<Longrightarrow> step n B e s = Some s' \<Longrightarrow> registry_inv s'"
  using step_general registry_inv_evolves by blast

lemma registry_inv_initial: "registry_inv initial"
  by (simp add: registry_inv_def wf_registry_def initial_def)

lemma reachable_inv: "reachable B s \<Longrightarrow> registry_inv s"
  by (induction rule: reachable.induct) (auto intro: registry_inv_initial step_inv)

lemma reachable_lobby: "reachable join_Al lobby"
proof -
  have 1: "step 0 join_Al (Connection (str ''d'') w_open [] 1) initial =
      Some \<lparr>players = [(str ''d'', (mk_player (str ''d'') None (str ''Park''))\<lparr>lastActivity := 1\<rparr>)],
            sent = [(str ''d'', mk_msg ''connection_established''
                       (JObj [(str ''playerId'', JStr (str ''d''))]))]\<rparr>"
    by (simp add: handleNewConnection_def players_set_def new_player_def mk_player_def
          sendToPlayer.simps players_get_def initial_def w_open_def)
  have 2: "step 0 join_Al (Connection (str ''e'') w_open [] 2)
       \<lparr>players = [(str ''d'', (mk_player (str ''d'') None (str ''Park''))\<lparr>lastActivity := 1\<rparr>)],
         sent = [(str ''d'', mk_msg ''connection_established''
                       (JObj [(str ''playerId'', JStr (str ''d''))]))]\<rparr> =
      Some \<lparr>players =
              [(str ''d'', (mk_player (str ''d'') None (str ''Park''))\<lparr>lastActivity := 1\<rparr>),
               (str ''e'', (mk_player (str ''e'') None (str ''Park''))\<lparr>lastActivity := 2\<rparr>)],
            sent =
              [(str ''d'', mk_msg ''connection_established'' (JObj [(str ''playerId'', JStr (str ''d''))])),
               (str ''e'', mk_msg ''connection_established'' (JObj [(str ''playerId'', JStr (str ''e''))]))]\<rparr>"
    by (simp add: handleNewConnection_def players_set_def new_player_def mk_player_def
          sendToPlayer.simps players_get_def w_open_def)
  have 3: "step 0 join_Al (Message (str ''d'') [] 5 6)
       \<lparr>players =
              [(str ''d'', (mk_player (str ''d'') None (str ''Park''))\<lparr>lastActivity := 1\<rparr>),
               (str ''e'', (mk_player (str ''e'') None (str ''Park''))\<lparr>lastActivity := 2\<rparr>)],
            sent =
              [(str ''d'', mk_msg ''connection_established'' (JObj [(str ''playerId'', JStr (str ''d''))])),
               (str ''e'', mk_msg ''connection_established'' (JObj [(str ''playerId'', JStr (str ''e''))]))]\<rparr>
      = Some lobby"
    by (simp add: handlePlayerMessage_def dispatch_def handlePlayerJoin_def join_Al_def Let_def
          join_profile_def set_profile_def nickname_of_def profile_json_def profile_Al_def
          getPlayersInLocation.simps broadcastToLocation.simps lobby_def
          players_get_def players_update_def touch_def sendToPlayer.simps
          mk_player_def w_open_def)
  from reachable_step [OF reachable_step [OF reachable_step [OF reachable_initial 1] 2] 3]
  show ?thesis .
qed

lemma reliable_evolves: "reliable s \<Longrightarrow> evolves s s' \<Longrightarrow> reliable s'"
  using evolves_subset unfolding reliable_def by blast

lemma evolves_evicted: "evolves s (evicted k s)"
  unfolding evicted_def using evolves_deliver evolves_delete by (rule evolves_trans)

lemma cleanup_as_evictions:
  "wf_registry s \<Longrightarrow>
   \<forall>(k, p) \<in> set kps. players_get s k = Some p \<or> players_get s k = None \<Longrightarrow>
   cleanup_loop n now (map fst kps) s =
     evict_each n (map fst (filter (\<lambda>(k, p). stale now p) kps)) s"
proof (induction kps arbitrary: s)
  case Nil
  then show ?case by simp
next
  case (Cons kp kps)
  obtain k p where kp: "kp = (k, p)" by (cases kp)
  from Cons.prems(2) have rest: "\<forall>(k, p) \<in> set kps. players_get s k = Some p \<or> players_get s k = None"
    by simp
  note ih = Cons.IH [OF Cons.prems(1) rest]
  show ?case
  proof (cases "players_get s k")
    case None
    then show ?thesis using ih kp by (simp add: disconnect_absent)
  next
    case (Some p')
    with Cons.prems(2) kp have p': "p' = p" by simp
    show ?thesis
    proof (cases "stale now p")
      case False
      with Some p' kp ih show ?thesis by simp
    next
      case True
      show ?thesis
      proof (cases "handlePlayerDisconnect n k s")
        case None
        with Some p' kp True show ?thesis by simp
      next
        case d: (Some s1)
        from core(2) [OF Cons.prems(1) d] have ev: "evolves s s1" by (rule conjunct1)
        have wf1: "wf_registry s1" using Cons.prems(1) ev by (rule evolves_wf)
        have snap: "players_get s1 k' = Some q \<or> players_get s1 k' = None"
          if "(k', q) \<in> set kps" for k' q
        proof (cases "players_get s1 k'")
          case None
          then show ?thesis by simp
        next
          case (Some q')
          from evolves_get [OF Cons.prems(1) ev Some] rest that Some show ?thesis by auto
        qed
        have "\<forall>(k, p) \<in> set kps. players_get s1 k = Some p \<or> players_get s1 k = None"
        proof
          fix x assume "x \<in> set kps"
          then show "case x of (k, p) \<Rightarrow> players_get s1 k = Some p \<or> players_get s1 k = None"
            using snap [of "fst x" "snd x"] by (simp add: case_prod_unfold)
        qed
        from Cons.IH [OF wf1 this] Some p' kp True d show ?thesis by simp
      qed
    qed
  qed
qed

lemma evict_each_reliable:
  "wf_registry s \<Longrightarrow> reliable s \<Longrightarrow>
   evict_each n ks s = Some (foldl (\<lambda>s k. evicted k s) s ks)"
proof (induction ks arbitrary: s)
  case Nil
  then show ?case by simp
next
  case (Cons k ks)
  have d: "handlePlayerDisconnect n k s = Some (evicted k s)"
    unfolding evicted_def using Cons.prems by (rule disconnect_reliable)
  have "wf_registry (evicted k s)" using Cons.prems(1) evolves_evicted by (rule evolves_wf)
  moreover have "reliable (evicted k s)" using Cons.prems(2) evolves_evicted by (rule reliable_evolves)
  ultimately show ?case using Cons.IH d by simp
qed

lemma players_evicted: "players (evicted k s) = filter (\<lambda>kp. fst kp \<noteq> k) (players s)"
  by (simp add: evicted_def players_delete_def)

lemma players_foldl_evicted:
  "players (foldl (\<lambda>s k. evicted k s) s ks) = filter (\<lambda>kp. fst kp \<notin> set ks) (players s)"
proof (induction ks arbitrary: s)
  case Nil
  then show ?case by simp
next
  case (Cons k ks)
  show ?case by (simp add: Cons.IH players_evicted conj_commute)
qed

lemma not_stale_keys:
  assumes "wf_registry s"
  shows "filter (\<lambda>kp. fst kp \<notin> set (stale_keys now s)) (players s) =
         filter (\<lambda>(k, p). \<not> stale now p) (players s)"
proof (rule filter_cong [OF refl])
  fix kp assume m: "kp \<in> set (players s)"
  obtain k p where kp: "kp = (k, p)" by (cases kp)
  have "k \<in> set (stale_keys now s) \<longleftrightarrow> stale now p"
  proof
    assume "k \<in> set (stale_keys now s)"
    then obtain p' where p': "(k, p') \<in> set (players s)" "stale now p'"
      unfolding stale_keys_def by auto
    from m kp have "players_get s k = Some p" using wf_get [OF assms] by blast
    moreover from p'(1) have "players_get s k = Some p'" using wf_get [OF assms] by blast
    ultimately have "p' = p" by simp
    with p'(2) show "stale now p" by simp
  next
    assume "stale now p"
    with m kp show "k \<in> set (stale_keys now s)" unfolding stale_keys_def by force
  qed
  then show "(fst kp \<notin> set (stale_keys now s)) = (case kp of (k, p) \<Rightarrow> \<not> stale now p)"
    using kp by simp
qed


lemma nickname_touch [simp]: "nickname_of (touch now p) = nickname_of p"
  by (simp add: nickname_of_def)

lemma chat_msg_touch [simp]: "chat_msg k (touch now p) t now' = chat_msg k p t now'"
  by (simp add: chat_msg_def data_prop_def)





section \<open>The claims\<close>

text \<open>
  C1. \<open>broadcastToLocation\<close> sends to exactly the sessions of the registry whose profile
  is set, whose location is the location argument and whose id is not the excluded one:
  that is the list \<open>getPlayersInLocation\<close> computes, and every one of them carries the
  location argument and an id other than the excluded one, so the acting session is not
  among them and a broadcast to Park reaches no session located at Beach. Every message
  the call writes is the broadcast message on the open transport of such a session, or a
  \<open>player_left\<close> of a cleanup that a failing send started. Where no send throws, the
  call writes the message once to each of these sessions whose transport is open, in
  registry order, and nothing else.
\<close>

theorem broadcast_recipient_set:
  assumes "wf_registry s"
  shows "set (getPlayersInLocation s loc ex) =
           {p. \<exists>k. (k, p) \<in> set (players s) \<and> data p \<noteq> None \<and> location p = loc \<and> Some k \<noteq> ex}
         \<and> (\<forall>p \<in> set (getPlayersInLocation s loc ex). Some (id_of p) \<noteq> ex \<and> location p = loc)
         \<and> (\<forall>s'. broadcastToLocation n loc m ex s = Some s' \<longrightarrow>
               (\<forall>e \<in> set (news s s'). snd e = m \<and> rcpt s loc ex (fst e) \<or> left_entry s e))
         \<and> (reliable s \<longrightarrow>
               broadcastToLocation n loc m ex s =
                 Some (deliver (map (\<lambda>p. (id_of p, m)) (recipients s loc ex)) s))"
proof -
  have a: "set (getPlayersInLocation s loc ex) =
           {p. \<exists>k. (k, p) \<in> set (players s) \<and> data p \<noteq> None \<and> location p = loc \<and> Some k \<noteq> ex}"
    unfolding set_eq_iff mem_Collect_eq in_getPlayersInLocation by blast
  have c: "\<forall>p \<in> set (getPlayersInLocation s loc ex). Some (id_of p) \<noteq> ex \<and> location p = loc"
    using assms by (auto simp: in_getPlayersInLocation dest: wf_get)
  have d: "\<forall>s'. broadcastToLocation n loc m ex s = Some s' \<longrightarrow>
               (\<forall>e \<in> set (news s s'). snd e = m \<and> rcpt s loc ex (fst e) \<or> left_entry s e)"
    using core(3) [OF assms] by blast
  from a c d broadcast_reliable [OF assms] show ?thesis by blast
qed

theorem broadcast_recipient_set_witness:
  "wf_registry park_beach \<and> reliable park_beach \<and>
   broadcastToLocation 0 (str ''Park'') JNull (Some (str ''a'')) park_beach =
     Some (park_beach\<lparr>sent := [(str ''b'', JNull)]\<rparr>)"
proof -
  have "broadcastToLocation 0 (str ''Park'') JNull (Some (str ''a'')) park_beach =
     Some (park_beach\<lparr>sent := [(str ''b'', JNull)]\<rparr>)"
    using broadcast_recipient_set [OF wf_park_beach, of "str ''Park''" "Some (str ''a'')" 0 JNull]
      reliable_park_beach
    by (simp add: recipients_def getPlayersInLocation.simps
          park_beach_def mk_player_def w_open_def deliver_def)
  then show ?thesis using wf_park_beach reliable_park_beach by simp
qed

text \<open>
  C7. The disconnect cleanup is idempotent. Whenever \<open>handlePlayerDisconnect\<close> returns,
  the id is absent from the registry and a second call returns the same state: nothing is
  written and nothing changes. A call for an id absent from the registry is such a no-op.
  Where no send throws, the first call writes \<open>player_left\<close> once to each session that
  is joined, shares the location, has an open transport and is not the session itself
  (no message when the session never joined), then removes the session; no session is
  written to twice.
\<close>

theorem disconnect_idempotent:
  assumes "wf_registry s"
  shows "(\<forall>s'. handlePlayerDisconnect n k s = Some s' \<longrightarrow>
            players_get s' k = None \<and> handlePlayerDisconnect n' k s' = Some s')
       \<and> (players_get s k = None \<longrightarrow> handlePlayerDisconnect n k s = Some s)
       \<and> (reliable s \<longrightarrow>
            handlePlayerDisconnect n k s = Some (players_delete k (deliver (disconnect_sends s k) s))
            \<and> distinct (map fst (disconnect_sends s k)))"
proof -
  have a: "players_get s' k = None \<and> handlePlayerDisconnect n' k s' = Some s'"
    if "handlePlayerDisconnect n k s = Some s'" for s'
    using core(2) [OF assms that] by (simp add: disconnect_absent)
  have "distinct (map fst (disconnect_sends s k))"
    using distinct_recipient_ids [OF assms]
    by (simp add: disconnect_sends_def comp_def split: option.splits)
  with a disconnect_absent disconnect_reliable [OF assms] show ?thesis by blast
qed

theorem disconnect_idempotent_witness:
  "wf_registry park_beach \<and> reliable park_beach \<and>
   handlePlayerDisconnect 0 (str ''a'') park_beach = Some park_beach_without_a \<and>
   players_get park_beach_without_a (str ''a'') = None \<and>
   handlePlayerDisconnect 0 (str ''a'') park_beach_without_a = Some park_beach_without_a"
proof -
  note t = disconnect_idempotent [OF wf_park_beach, of 0 "str ''a''" 0]
  have 1: "handlePlayerDisconnect 0 (str ''a'') park_beach = Some park_beach_without_a"
    using t reliable_park_beach
    by (simp add: disconnect_sends_def recipients_def getPlayersInLocation.simps players_get_def
          players_delete_def player_left_msg_def nickname_of_def park_beach_without_a_def
          park_beach_def mk_player_def w_open_def deliver_def)
  from t 1 have "players_get park_beach_without_a (str ''a'') = None \<and>
    handlePlayerDisconnect 0 (str ''a'') park_beach_without_a = Some park_beach_without_a"
    by blast
  with 1 wf_park_beach reliable_park_beach show ?thesis by blast
qed

text \<open>
  C6 as stated fails: an envelope of unknown type refreshes the sender's \<open>lastActivity\<close>.
\<close>

theorem unknown_type_touches_counterexample:
  "refused bogus [] = Some Unknown_type \<and>
   lastActivity (mk_player (str ''d'') None (str ''Park'')) = 0 \<and>
   players_get park_beach (str ''d'') = Some (mk_player (str ''d'') None (str ''Park'')) \<and>
   handlePlayerMessage 0 bogus 5 5 (str ''d'') [] park_beach =
     Some (deliver [(str ''d'', error_msg ''Unknown message type'')]
             (players_update (str ''d'') (touch 5) park_beach)) \<and>
   players_get (deliver [(str ''d'', error_msg ''Unknown message type'')]
             (players_update (str ''d'') (touch 5) park_beach)) (str ''d'') =
     Some ((mk_player (str ''d'') None (str ''Park''))\<lparr>lastActivity := 5\<rparr>)"
  by (simp add: handlePlayerMessage_def dispatch_def refused_def known_type_def bogus_def
        players_get_def players_update_def touch_def sendToPlayer.simps deliver_def
        park_beach_def mk_player_def w_open_def)

text \<open>
  C6, amended. An envelope that is unparsable, or parses to \<open>null\<close> or to a value whose
  type is not one of the four the server knows, sent by a registered session whose send
  does not throw: the sender is written exactly one error envelope if its transport is
  open (none otherwise), nothing is written to anyone else, no session is added or
  removed and no profile, location or transport changes. The one change of state is the
  sender's \<open>lastActivity\<close>, which every parsed envelope refreshes; an unparsable one
  changes nothing. From an id that is not registered the envelope changes nothing.
\<close>

theorem refused_envelope:
  assumes "refused B raw = Some r"
  shows "(players_get s k = None \<longrightarrow> handlePlayerMessage n B now now' k raw s = Some s)
       \<and> (\<forall>p. players_get s k = Some p \<and> \<not> send_throws (ws p) \<longrightarrow>
             handlePlayerMessage n B now now' k raw s =
               Some (deliver
                      (if readyState (ws p) = OPEN then [(k, error_msg (refusal_text r))] else [])
                      (if JSON_parse B raw = None then s else players_update k (touch now) s)))"
proof (cases "JSON_parse B raw")
  case None
  with assms have r: "r = Invalid_format" by (simp add: refused_def)
  have h: "handlePlayerMessage n B now now' k raw s =
      sendToPlayer n k (error_msg ''Invalid message format'') s"
    using None by (simp add: handlePlayerMessage_def)
  have "handlePlayerMessage n B now now' k raw s = Some s" if "players_get s k = None"
    unfolding h using that by (simp add: sendToPlayer.simps)
  moreover have "handlePlayerMessage n B now now' k raw s =
      Some (deliver (if readyState (ws p) = OPEN
                     then [(k, error_msg ''Invalid message format'')] else []) s)"
    if "players_get s k = Some p" "\<not> send_throws (ws p)" for p
    unfolding h using that by (rule sendToPlayer_no_throw)
  ultimately show ?thesis using None r by simp
next
  case (Some msg)
  have a: "handlePlayerMessage n B now now' k raw s = Some s" if "players_get s k = None"
    using Some that by (simp add: handlePlayerMessage_def)
  have b: "handlePlayerMessage n B now now' k raw s =
               Some (deliver
                      (if readyState (ws p) = OPEN then [(k, error_msg (refusal_text r))] else [])
                      (players_update k (touch now) s))"
    if g: "players_get s k = Some p" and nt: "\<not> send_throws (ws p)" for p
  proof -
    have g0: "players_get (players_update k (touch now) s) k = Some (touch now p)"
      using g by (simp add: players_get_update)
    have nt0: "\<not> send_throws (ws (touch now p))" using nt by simp
    note snd = sendToPlayer_no_throw [OF g0 nt0]
    show ?thesis
    proof (cases r)
      case Invalid_format
      with assms have "refused B raw = Some Invalid_format" by simp
      from dispatch_invalid [OF Some this] show ?thesis
        unfolding message_decompose [OF Some g] using snd Invalid_format by simp
    next
      case Unknown_type
      with assms have "refused B raw = Some Unknown_type" by simp
      from dispatch_unknown [OF Some this] show ?thesis
        unfolding message_decompose [OF Some g] using snd Unknown_type by simp
    qed
  qed
  from a b Some show ?thesis by simp
qed

theorem refused_envelope_witness:
  "refused bogus [] = Some Unknown_type \<and>
   players_get park_beach (str ''d'') = Some (mk_player (str ''d'') None (str ''Park'')) \<and>
   handlePlayerMessage 0 bogus 5 5 (str ''d'') [] park_beach =
     Some (deliver [(str ''d'', error_msg ''Unknown message type'')]
             (players_update (str ''d'') (touch 5) park_beach)) \<and>
   map_option data (players_get (deliver [(str ''d'', error_msg ''Unknown message type'')]
             (players_update (str ''d'') (touch 5) park_beach)) (str ''d'')) = Some None"
proof -
  have r: "refused bogus [] = Some Unknown_type"
    by (simp add: refused_def bogus_def known_type_def)
  have g: "players_get park_beach (str ''d'') = Some (mk_player (str ''d'') None (str ''Park''))"
    by (simp add: players_get_def park_beach_def)
  have "handlePlayerMessage 0 bogus 5 5 (str ''d'') [] park_beach =
     Some (deliver [(str ''d'', error_msg ''Unknown message type'')]
             (players_update (str ''d'') (touch 5) park_beach))"
    using refused_envelope [OF r, of park_beach "str ''d''" 0 5 5] g
    by (simp add: mk_player_def w_open_def bogus_def)
  moreover have "map_option data (players_get (deliver [(str ''d'', error_msg ''Unknown message type'')]
             (players_update (str ''d'') (touch 5) park_beach)) (str ''d'')) = Some None"
    using g by (simp add: players_get_update mk_player_def)
  ultimately show ?thesis using r g by blast
qed

text \<open>
  C10. In every reachable state every session's location is \<open>Park\<close>: a session is created
  there and nothing assigns the field afterwards. So no joined session is ever found in
  another location, and the sessions of Park are all the joined sessions.
\<close>

theorem always_in_park:
  assumes "reachable B s"
  shows "(\<forall>(k, p) \<in> set (players s). location p = str ''Park'')
       \<and> (\<forall>loc. loc \<noteq> str ''Park'' \<longrightarrow> getPlayersInLocation s loc ex = [])
       \<and> set (getPlayersInLocation s (str ''Park'') ex) =
           {p. \<exists>k. (k, p) \<in> set (players s) \<and> data p \<noteq> None \<and> Some k \<noteq> ex}"
proof -
  from reachable_inv [OF assms]
  have park: "\<forall>(k, p) \<in> set (players s). location p = str ''Park''"
    unfolding registry_inv_def by blast
  have "set (getPlayersInLocation s loc ex) = {}" if "loc \<noteq> str ''Park''" for loc
    using park that unfolding set_eq_iff in_getPlayersInLocation by blast
  moreover have "set (getPlayersInLocation s (str ''Park'') ex) =
           {p. \<exists>k. (k, p) \<in> set (players s) \<and> data p \<noteq> None \<and> Some k \<noteq> ex}"
    using park unfolding set_eq_iff mem_Collect_eq in_getPlayersInLocation by blast
  ultimately show ?thesis using park by simp
qed

theorem always_in_park_witness:
  "reachable join_Al lobby \<and>
   map (\<lambda>kp. location (snd kp)) (players lobby) = [str ''Park'', str ''Park''] \<and>
   getPlayersInLocation lobby (str ''Beach'') None = []"
proof -
  have "map (\<lambda>kp. location (snd kp)) (players lobby) = [str ''Park'', str ''Park'']"
    by (simp add: lobby_def mk_player_def)
  moreover have "getPlayersInLocation lobby (str ''Beach'') None = []"
    using always_in_park [OF reachable_lobby, of None] by simp
  ultimately show ?thesis using reachable_lobby by simp
qed

text \<open>
  C2. Take any reachable state, any event and a session whose profile is unset (or that is
  not registered) and that does not join by this event. Among the messages the event
  writes, no location broadcast (\<open>player_joined\<close>, \<open>player_left\<close>, \<open>player_moved\<close>,
  \<open>chat_message\<close>) is written to that session, none names it as the acting session, and no
  \<open>player_list\<close> lists a profile with its id.
\<close>

theorem unjoined_invisible:
  assumes "reachable B s" and "step n B e s = Some s'"
    and "\<not> active s u" and "\<not> joins B e u"
  shows "\<forall>w \<in> set (news s s').
           (broadcast_type (snd w) \<longrightarrow> fst w \<noteq> u \<and> actor (snd w) \<noteq> JStr u) \<and>
           (\<forall>x \<in> set (listed (snd w)). field x ''id'' \<noteq> JStr u)"
proof
  fix w assume w: "w \<in> set (news s s')"
  from step_general [OF reachable_inv [OF assms(1)] assms(2)] obtain s1 where
    a: "\<forall>x. active s1 x \<longrightarrow> active s x \<or> joins B e x"
    and sf: "\<forall>e' \<in> set (news s s'). safe s1 e'"
    by blast
  from a assms(3,4) have nu: "\<not> active s1 u" by blast
  from sf w have "safe s1 w" by blast
  with nu show "(broadcast_type (snd w) \<longrightarrow> fst w \<noteq> u \<and> actor (snd w) \<noteq> JStr u) \<and>
           (\<forall>x \<in> set (listed (snd w)). field x ''id'' \<noteq> JStr u)"
    unfolding safe_def by auto
qed

theorem unjoined_invisible_witness:
  "reachable join_Al lobby \<and>
   step 0 join_Al (Message (str ''d'') [] 7 8) lobby = Some lobby_rejoined \<and>
   \<not> active lobby (str ''e'') \<and>
   \<not> joins join_Al (Message (str ''d'') [] 7 8) (str ''e'') \<and>
   news lobby lobby_rejoined = [(str ''d'', mk_msg ''player_list'' (JArr []))] \<and>
   listed (mk_msg ''player_list'' (JArr [])) = []"
proof -
  have 1: "step 0 join_Al (Message (str ''d'') [] 7 8) lobby = Some lobby_rejoined"
    by (simp add: handlePlayerMessage_def dispatch_def handlePlayerJoin_def join_Al_def Let_def
          join_profile_def set_profile_def nickname_of_def profile_json_def profile_Al_def
          getPlayersInLocation.simps broadcastToLocation.simps lobby_def lobby_rejoined_def
          players_get_def players_update_def touch_def sendToPlayer.simps
          mk_player_def w_open_def)
  have 2: "\<not> active lobby (str ''e'')"
    by (simp add: active_def players_get_def lobby_def mk_player_def)
  have 3: "\<not> joins join_Al (Message (str ''d'') [] 7 8) (str ''e'')"
    by (simp add: joins_def)
  have 4: "news lobby lobby_rejoined = [(str ''d'', mk_msg ''player_list'' (JArr []))]"
    by (simp add: news_def lobby_rejoined_def)
  have 5: "listed (mk_msg ''player_list'' (JArr [])) = []"
    by (simp add: listed_def mk_msg_def payload_def)
  from unjoined_invisible [OF reachable_lobby 1 2 3] reachable_lobby 1 2 3 4 5
  show ?thesis by simp
qed

text \<open>
  C9. A sweep at time \<open>now\<close> runs the disconnect cleanup, the same
  \<open>handlePlayerDisconnect\<close> a close or an error of the transport runs, for each session
  whose transport is not open or whose \<open>now - lastActivity\<close> exceeds 5 minutes, in registry
  order, and for no other session. When the sweep returns, every session left in the
  registry has an open transport and was active within the last 5 minutes, and every
  message written is a \<open>player_left\<close> of such a cleanup. Where no send throws, the sweep
  returns: each evicted session that had joined is announced by \<open>player_left\<close> to the
  open transports of the other joined sessions of its location still registered, an
  evicted session that never joined is announced to no one, and exactly the sessions
  that were not stale remain.
\<close>

theorem sweep_evicts:
  assumes "wf_registry s"
  shows "cleanupDisconnectedPlayers n now s = evict_each n (stale_keys now s) s
       \<and> (\<forall>s'. cleanupDisconnectedPlayers n now s = Some s' \<longrightarrow>
             (\<forall>(k, p) \<in> set (players s').
                 readyState (ws p) = OPEN \<and> now - lastActivity p \<le> 5 * 60 * 1000)
             \<and> (\<forall>w \<in> set (news s s'). left_entry s w))
       \<and> (reliable s \<longrightarrow>
             cleanupDisconnectedPlayers n now s =
               Some (foldl (\<lambda>s k. evicted k s) s (stale_keys now s))
             \<and> players (foldl (\<lambda>s k. evicted k s) s (stale_keys now s)) =
                 filter (\<lambda>(k, p). \<not> stale now p) (players s))"
proof -
  have "\<forall>(k, p) \<in> set (players s). players_get s k = Some p \<or> players_get s k = None"
    using wf_get [OF assms] by blast
  from cleanup_as_evictions [OF assms this, of n now]
  have a: "cleanupDisconnectedPlayers n now s = evict_each n (stale_keys now s) s"
    by (simp add: cleanupDisconnectedPlayers_def stale_keys_def)
  have b: "(\<forall>(k, p) \<in> set (players s').
                 readyState (ws p) = OPEN \<and> now - lastActivity p \<le> 5 * 60 * 1000)
             \<and> (\<forall>w \<in> set (news s s'). left_entry s w)"
    if h: "cleanupDisconnectedPlayers n now s = Some s'" for s'
  proof -
    note c = cleanup_general [OF assms h]
    from c have "\<forall>(k, p) \<in> set (players s'). \<not> stale now p" by simp
    then have "\<forall>(k, p) \<in> set (players s').
                 readyState (ws p) = OPEN \<and> now - lastActivity p \<le> 5 * 60 * 1000"
      by (auto simp: stale_def timeout_def)
    moreover from c have "\<forall>w \<in> set (news s s'). left_entry s w" by simp
    ultimately show ?thesis by simp
  qed
  have c: "cleanupDisconnectedPlayers n now s =
               Some (foldl (\<lambda>s k. evicted k s) s (stale_keys now s))
             \<and> players (foldl (\<lambda>s k. evicted k s) s (stale_keys now s)) =
                 filter (\<lambda>(k, p). \<not> stale now p) (players s)"
    if "reliable s"
    unfolding a using evict_each_reliable [OF assms that] not_stale_keys [OF assms]
    by (simp add: players_foldl_evicted)
  from a b c show ?thesis by blast
qed

theorem sweep_evicts_witness:
  "wf_registry park_beach \<and> reliable park_beach \<and>
   cleanupDisconnectedPlayers 0 300001 park_beach =
     Some \<lparr>players = [],
           sent = [(str ''b'', mk_msg ''player_left''
                     (JObj [(str ''id'', JStr (str ''a'')), (str ''nickname'', JUndefined)]))]\<rparr>"
proof -
  from sweep_evicts [OF wf_park_beach, of 0 300001] reliable_park_beach
  have "cleanupDisconnectedPlayers 0 300001 park_beach =
          Some (foldl (\<lambda>s k. evicted k s) park_beach (stale_keys 300001 park_beach))"
    by blast
  moreover have "foldl (\<lambda>s k. evicted k s) park_beach (stale_keys 300001 park_beach) =
     \<lparr>players = [],
      sent = [(str ''b'', mk_msg ''player_left''
                (JObj [(str ''id'', JStr (str ''a'')), (str ''nickname'', JUndefined)]))]\<rparr>"
    by (simp add: stale_keys_def stale_def timeout_def evicted_def disconnect_sends_def
          recipients_def getPlayersInLocation.simps players_get_def players_delete_def
          player_left_msg_def nickname_of_def park_beach_def mk_player_def w_open_def deliver_def)
  ultimately show ?thesis using wf_park_beach reliable_park_beach by simp
qed

text \<open>
  C3. The code departs from the claim on a coordinate that cannot be converted to a
  string. A joined session sends \<open>player_move\<close> with \<open>x = {toString: 1}\<close> and \<open>y = 5\<close>:
  \<open>parseFloat\<close> throws on \<open>x\<close>, the sender is answered with the error
  \<open>Invalid message format\<close>, no position is stored on the session and no \<open>player_moved\<close>
  is written, where the claim has \<open>x\<close> default to 0 and the position stored and broadcast.
\<close>

theorem move_unconvertible_rejected:
  "players_get park_beach (str ''a'') = Some (mk_player (str ''a'') (Some []) (str ''Park'')) \<and>
   JSON_parse move_unconvertible [] =
     Some (JObj [(str ''type'', JStr (str ''player_move'')),
                 (str ''data'', JObj [(str ''x'', JObj [(str ''toString'', JNum (Fin 1))]),
                                      (str ''y'', JNum (Fin 5))])]) \<and>
   handlePlayerMessage 0 move_unconvertible 5 5 (str ''a'') [] park_beach =
     Some (deliver [(str ''a'', error_msg ''Invalid message format'')]
            (players_update (str ''a'') (touch 5) park_beach)) \<and>
   map_option data
     (players_get (deliver [(str ''a'', error_msg ''Invalid message format'')]
                     (players_update (str ''a'') (touch 5) park_beach)) (str ''a'')) =
     Some (Some [])"
  by (simp add: handlePlayerMessage_def dispatch_def handlePlayerMove_def call_parseFloat_def
        move_unconvertible_def players_get_def players_update_def touch_def
        sendToPlayer.simps deliver_def park_beach_def mk_player_def w_open_def)

text \<open>
  C8. The code departs from the claim on a \<open>player_move\<close> without data. A joined session
  sends \<open>{type: "player_move"}\<close>: reading \<open>moveData.x\<close> throws, the sender is answered
  with the error \<open>Invalid message format\<close> and no position is stored, where the claim has
  the missing input defaulted and never rejected.
\<close>

theorem move_missing_data_rejected:
  "players_get park_beach (str ''a'') = Some (mk_player (str ''a'') (Some []) (str ''Park'')) \<and>
   JSON_parse missing_data [] = Some (JObj [(str ''type'', JStr (str ''player_move''))]) \<and>
   handlePlayerMessage 0 missing_data 5 5 (str ''a'') [] park_beach =
     Some (deliver [(str ''a'', error_msg ''Invalid message format'')]
            (players_update (str ''a'') (touch 5) park_beach)) \<and>
   map_option data
     (players_get (deliver [(str ''a'', error_msg ''Invalid message format'')]
                     (players_update (str ''a'') (touch 5) park_beach)) (str ''a'')) =
     Some (Some [])"
  by (simp add: handlePlayerMessage_def dispatch_def handlePlayerMove_def missing_data_def
        players_get_def players_update_def touch_def sendToPlayer.simps deliver_def
        park_beach_def mk_player_def w_open_def)

text \<open>
  C5. The code departs from the claim on a join whose nickname cannot be converted to a
  string. A registered session sends \<open>player_join\<close> with \<open>nickname = {toString: 1}\<close>: the
  profile is set, then the log line throws; the session is answered with the error
  \<open>Invalid message format\<close> and is joined from then on, but it is sent no \<open>player_list\<close>
  and the joined sessions \<open>a\<close> and \<open>b\<close> of its location are sent no \<open>player_joined\<close>.
\<close>

theorem join_unloggable_nickname:
  "players_get park_beach (str ''d'') = Some (mk_player (str ''d'') None (str ''Park'')) \<and>
   JSON_parse join_unloggable [] =
     Some (JObj [(str ''type'', JStr (str ''player_join'')),
                 (str ''data'', JObj [(str ''nickname'',
                                      JObj [(str ''toString'', JNum (Fin 1))])])]) \<and>
   handlePlayerMessage 0 join_unloggable 5 6 (str ''d'') [] park_beach =
     Some (deliver [(str ''d'', error_msg ''Invalid message format'')]
            (players_update (str ''d'')
               (set_profile [(str ''nickname'', JObj [(str ''toString'', JNum (Fin 1))]),
                             (str ''id'', JStr (str ''d'')), (str ''joinTime'', JNum (Fin 6))])
               (players_update (str ''d'') (touch 5) park_beach))) \<and>
   active (deliver [(str ''d'', error_msg ''Invalid message format'')]
            (players_update (str ''d'')
               (set_profile [(str ''nickname'', JObj [(str ''toString'', JNum (Fin 1))]),
                             (str ''id'', JStr (str ''d'')), (str ''joinTime'', JNum (Fin 6))])
               (players_update (str ''d'') (touch 5) park_beach))) (str ''d'') \<and>
   map (\<lambda>p. id_of p) (getPlayersInLocation park_beach (str ''Park'') (Some (str ''d''))) =
     [str ''a'', str ''b'']"
  by (simp add: handlePlayerMessage_def dispatch_def handlePlayerJoin_def join_unloggable_def
        Let_def join_profile_def set_profile_def nickname_of_def active_def
        getPlayersInLocation.simps
        players_get_def players_update_def touch_def sendToPlayer.simps deliver_def
        park_beach_def mk_player_def w_open_def)




end
